theory Spec2Isabelle
  imports Main
begin

section \<open>The cast slideshow renderer (web/apps/cast/src/services/render.ts)\<close>

text \<open>
  A shallow embedding of the slideshow generator of the cast app: the collection diff
  fetcher, the file decryptor, the eligibility filter, the content materializer and the
  generator \<open>imageURLGenerator\<close> that drives them.

  Everything the TypeScript does beyond computing a value is explicit here. A rejected
  promise or a \<open>throw\<close> is the left injection of \<open>exn + 'a\<close>; the mutable locals of the
  generator are a record that is passed along; revoking a URL, waiting, logging and
  yielding are events appended to a trace; the answers of the outside world (server,
  clock, codecs) are arguments.
\<close>

subsection \<open>Errors and awaiting\<close>

text \<open>
  The only thing the code inspects in a caught error is whether it is an \<open>ApiError\<close> and,
  if so, its \<open>httpStatusCode\<close>. Every other error is an \<open>Error\<close> with its message.
\<close>

datatype exn = ApiError int | Error string

text \<open>\<open>await p\<close> followed by the rest of the function: a rejection skips the rest.\<close>

definition await :: "exn + 'a \<Rightarrow> ('a \<Rightarrow> exn + 'b) \<Rightarrow> exn + 'b" where
  "await p k = (case p of Inl e \<Rightarrow> Inl e | Inr x \<Rightarrow> k x)"

subsection \<open>Files (types/file)\<close>

text \<open>
  Modelled from the spec: the declarations of \<open>types/file\<close> and of \<open>FILE_TYPE\<close> are not
  among the sources; the records below hold the fields that render.ts reads, with the
  types its uses give them. Numbers are \<open>int\<close>, absent optional fields are \<open>None\<close>.
  Three fields are renamed because their names are taken or would capture variables:
  \<open>id\<close> is \<open>file_id\<close>, \<open>file\<close> is \<open>file_obj\<close>, and \<open>w\<close>, \<open>h\<close> are \<open>pm_w\<close>, \<open>pm_h\<close>.
\<close>

datatype FILE_TYPE = IMAGE | VIDEO | LIVE_PHOTO | OTHERS

type_synonym bytes = "nat list"

record FileAttributes =
  encryptedData :: string
  decryptionHeader :: string

record FileInfo =
  fileSize :: int

record 'd MagicMetadataCore =
  version :: int
  count :: int
  data :: 'd
  header :: string

record Metadata =
  title :: string
  creationTime :: int
  modificationTime :: int
  fileType :: FILE_TYPE

type_synonym FileMagicMetadataProps = "(string \<times> string) list"

record FilePublicMagicMetadataProps =
  editedTime :: "int option"
  editedName :: "string option"
  caption :: "string option"
  pm_w :: "int option"
  pm_h :: "int option"

text \<open>
  The properties an encrypted and a decrypted file share (\<open>restFileProps\<close> and the three
  metadata slots, whose types differ before and after decryption).
\<close>

record ('m, 'g, 'p) FileProps =
  file_id :: int
  info :: FileInfo
  file_obj :: FileAttributes
  thumbnail :: FileAttributes
  isDeleted :: bool
  updationTime :: int
  metadata :: 'm
  magicMetadata :: "'g MagicMetadataCore option"
  pubMagicMetadata :: "'p MagicMetadataCore option"

record EncryptedEnteFile = "(FileAttributes, string, string) FileProps" +
  encryptedKey :: string
  keyDecryptionNonce :: string

record EnteFile =
  "(Metadata, FileMagicMetadataProps, FilePublicMagicMetadataProps) FileProps" +
  key :: string

subsection \<open>What render.ts imports\<close>

text \<open>
  The helpers render.ts imports (\<open>@/media/formats\<close>, \<open>@/next/file\<close>, the crypto worker,
  the codecs, the device check and the URL builders) are not among the sources; they are
  the fields of one record of parameters, and nothing is assumed about them. A \<open>Blob\<close> is
  its bytes and its \<open>type\<close>; \<open>decodeLivePhoto\<close> returns \<open>(imageData, imageFileName)\<close>;
  \<open>resize\<close> stands for the canvas round trip of the source's \<open>resize\<close>. The crypto
  worker's \<open>decryptMetadata\<close> returns \<open>any\<close> in the source; its three uses are three
  fields, one for each type the result is used at.
\<close>

record Blob =
  blob_data :: bytes
  blob_type :: string

record deps =
  nameAndExtension :: "string \<Rightarrow> string \<times> string option"
  isNonWebImageFileExtension :: "string option \<Rightarrow> bool"
  isHEICExtension :: "string option \<Rightarrow> bool"
  decryptB64 :: "string \<Rightarrow> string \<Rightarrow> string \<Rightarrow> exn + string"
  decryptMetadata :: "string \<Rightarrow> string \<Rightarrow> string \<Rightarrow> exn + Metadata"
  decryptMetadata_magic :: "string \<Rightarrow> string \<Rightarrow> string \<Rightarrow> exn + FileMagicMetadataProps"
  decryptMetadata_pub ::
    "string \<Rightarrow> string \<Rightarrow> string \<Rightarrow> exn + FilePublicMagicMetadataProps"
  fromB64 :: "string \<Rightarrow> exn + bytes"
  decryptFile :: "bytes \<Rightarrow> bytes \<Rightarrow> string \<Rightarrow> exn + bytes"
  isChromecast :: bool
  getCastFileURL :: "int \<Rightarrow> string"
  getCastThumbnailURL :: "int \<Rightarrow> string"
  decodeLivePhoto :: "string \<Rightarrow> Blob \<Rightarrow> exn + bytes \<times> string"
  detectMediaMIMEType :: "string \<Rightarrow> Blob \<Rightarrow> exn + string option"
  heicToJPEG :: "Blob \<Rightarrow> exn + Blob"
  resize :: "Blob \<Rightarrow> exn + Blob"

subsection \<open>The file decryptor\<close>

text \<open>
  JavaScript truthiness of an optional number and of an optional string: \<open>undefined\<close>,
  \<open>0\<close> and the empty string are falsy.
\<close>

definition truthy_number :: "int option \<Rightarrow> bool" where
  "truthy_number x = (case x of None \<Rightarrow> False | Some n \<Rightarrow> n \<noteq> 0)"

definition truthy_string :: "string option \<Rightarrow> bool" where
  "truthy_string x = (case x of None \<Rightarrow> False | Some s \<Rightarrow> s \<noteq> [])"

text \<open>
  \<open>if (m?.data) { ... = {...m, data: await worker.decryptMetadata(m.data, m.header, fileKey)} }\<close>:
  the overlay is decrypted when it is present and its data is a non-empty string, and is
  left \<open>undefined\<close> otherwise.
\<close>

definition decryptMagic ::
  "(string \<Rightarrow> string \<Rightarrow> string \<Rightarrow> exn + 'd) \<Rightarrow> string MagicMetadataCore option \<Rightarrow> string
     \<Rightarrow> exn + 'd MagicMetadataCore option" where
  "decryptMagic dec m fileKey =
     (case m of
        None \<Rightarrow> Inr None
      | Some mm \<Rightarrow>
          if data mm = [] then Inr None
          else await (dec (data mm) (header mm) fileKey)
                 (\<lambda>d. Inr (Some \<lparr>version = version mm, count = count mm,
                                  data = d, header = header mm\<rparr>)))"

text \<open>\<open>file.pubMagicMetadata?.data.editedTime\<close> and \<open>...editedName\<close>.\<close>

definition pub_editedTime :: "EnteFile \<Rightarrow> int option" where
  "pub_editedTime f = (case pubMagicMetadata f of None \<Rightarrow> None | Some p \<Rightarrow> editedTime (data p))"

definition pub_editedName :: "EnteFile \<Rightarrow> string option" where
  "pub_editedName f = (case pubMagicMetadata f of None \<Rightarrow> None | Some p \<Rightarrow> editedName (data p))"

definition decryptEnteFile :: "deps \<Rightarrow> EncryptedEnteFile \<Rightarrow> string \<Rightarrow> exn + EnteFile" where
  "decryptEnteFile D encryptedFile collectionKey =
     await (decryptB64 D (encryptedKey encryptedFile) (keyDecryptionNonce encryptedFile)
              collectionKey) (\<lambda>fileKey.
     await (decryptMetadata D (encryptedData (metadata encryptedFile))
              (decryptionHeader (metadata encryptedFile)) fileKey) (\<lambda>fileMetadata.
     await (decryptMagic (decryptMetadata_magic D) (magicMetadata encryptedFile) fileKey)
       (\<lambda>fileMagicMetadata.
     await (decryptMagic (decryptMetadata_pub D) (pubMagicMetadata encryptedFile) fileKey)
       (\<lambda>filePubMagicMetadata.
     let f0 = \<lparr>file_id = file_id encryptedFile, info = info encryptedFile,
                file_obj = file_obj encryptedFile, thumbnail = thumbnail encryptedFile,
                isDeleted = isDeleted encryptedFile,
                updationTime = updationTime encryptedFile,
                metadata = fileMetadata, magicMetadata = fileMagicMetadata,
                pubMagicMetadata = filePubMagicMetadata, key = fileKey\<rparr>;
         f1 = (if truthy_number (pub_editedTime f0)
               then f0\<lparr>metadata := (metadata f0)\<lparr>creationTime := the (pub_editedTime f0)\<rparr>\<rparr>
               else f0);
         f2 = (if truthy_string (pub_editedName f1)
               then f1\<lparr>metadata := (metadata f1)\<lparr>title := the (pub_editedName f1)\<rparr>\<rparr>
               else f1)
     in Inr f2))))"

subsection \<open>The eligibility filter\<close>

definition isImageOrLivePhoto :: "EnteFile \<Rightarrow> bool" where
  "isImageOrLivePhoto f =
     (fileType (metadata f) = IMAGE \<or> fileType (metadata f) = LIVE_PHOTO)"

definition isFileEligible :: "deps \<Rightarrow> EnteFile \<Rightarrow> bool" where
  "isFileEligible D f =
     (if \<not> isImageOrLivePhoto f then False
      else if fileSize (info f) > 100 * 1024 * 1024 then False
      else let extension = snd (nameAndExtension D (title (metadata f)))
           in if isNonWebImageFileExtension D extension then isHEICExtension D extension
              else True)"

subsection \<open>The content materializer\<close>

text \<open>
  What the outside world answers while one file is processed: the HTTP response to the
  download (\<open>None\<close> when \<open>resp.data\<close> is \<open>undefined\<close>), the URL that
  \<open>URL.createObjectURL\<close> hands out, and the two readings of \<open>Date.now()\<close>, before the
  pacing wait and at the yield.
\<close>

record world =
  httpGet :: "string \<Rightarrow> string \<Rightarrow> exn + bytes option"
  createObjectURL :: "Blob \<Rightarrow> string"
  nowBeforeWait :: int
  nowAtYield :: int

definition downloadFile :: "deps \<Rightarrow> world \<Rightarrow> string \<Rightarrow> EnteFile \<Rightarrow> bool \<Rightarrow> exn + Blob" where
  "downloadFile D W castToken f shouldUseThumbnail =
     (if \<not> isImageOrLivePhoto f then Inl (Error ''Can only cast images and live photos'')
      else
        let url = (if shouldUseThumbnail then getCastThumbnailURL D (file_id f)
                   else getCastFileURL D (file_id f))
        in await (httpGet W url castToken) (\<lambda>resp.
             case resp of
               None \<Rightarrow> Inl (Error (''Failed to get '' @ url))
             | Some d \<Rightarrow>
                 await (fromB64 D (if shouldUseThumbnail then decryptionHeader (thumbnail f)
                                   else decryptionHeader (file_obj f))) (\<lambda>hdr.
                 await (decryptFile D d hdr (key f)) (\<lambda>decrypted.
                 Inr \<lparr>blob_data = decrypted, blob_type = []\<rparr>))))"

text \<open>
  Lines 300 to 317 of \<open>renderableImageBlob\<close>: the file name and the bytes that are handed
  to the MIME sniffer (the still image of a live photo, unless the thumbnail is used).
\<close>

definition shouldUseThumbnail :: "deps \<Rightarrow> EnteFile \<Rightarrow> bool" where
  "shouldUseThumbnail D f =
     (isChromecast D \<and> isHEICExtension D (snd (nameAndExtension D (title (metadata f)))))"

definition sniffedInput :: "deps \<Rightarrow> world \<Rightarrow> string \<Rightarrow> EnteFile \<Rightarrow> exn + string \<times> Blob" where
  "sniffedInput D W castToken f =
     (let fileName = title (metadata f)
      in await (downloadFile D W castToken f (shouldUseThumbnail D f)) (\<lambda>blob.
           if \<not> shouldUseThumbnail D f \<and> fileType (metadata f) = LIVE_PHOTO
           then await (decodeLivePhoto D fileName blob) (\<lambda>(imageData, imageFileName).
                  Inr (imageFileName, \<lparr>blob_data = imageData, blob_type = []\<rparr>))
           else Inr (fileName, blob)))"

text \<open>Lines 319 to 329: sniff, transcode HEIC and HEIF, wrap with the sniffed type.\<close>

definition renderableImageBlob :: "deps \<Rightarrow> world \<Rightarrow> string \<Rightarrow> EnteFile \<Rightarrow> exn + Blob" where
  "renderableImageBlob D W castToken f =
     await (sniffedInput D W castToken f) (\<lambda>(fileName, blob).
     await (detectMediaMIMEType D fileName blob) (\<lambda>mimeType.
       if \<not> truthy_string mimeType
       then Inl (Error (''Could not detect MIME type for file '' @ fileName))
       else
         await (if the mimeType = ''image/heif'' \<or> the mimeType = ''image/heic''
                then heicToJPEG D blob else Inr blob) (\<lambda>blob'.
         Inr \<lparr>blob_data = blob_data blob', blob_type = the mimeType\<rparr>)))"

definition pub_w :: "EnteFile \<Rightarrow> int option" where
  "pub_w f = (case pubMagicMetadata f of None \<Rightarrow> None | Some p \<Rightarrow> pm_w (data p))"

definition pub_h :: "EnteFile \<Rightarrow> int option" where
  "pub_h f = (case pubMagicMetadata f of None \<Rightarrow> None | Some p \<Rightarrow> pm_h (data p))"

definition needsResize :: "deps \<Rightarrow> EnteFile \<Rightarrow> bool" where
  "needsResize D f =
     (if \<not> isChromecast D then False
      else if \<not> truthy_number (pub_w f) \<or> \<not> truthy_number (pub_h f) then True
      else max (the (pub_w f)) (the (pub_h f)) > 1280
           \<or> min (the (pub_w f)) (the (pub_h f)) > 720)"

definition createRenderableURL :: "deps \<Rightarrow> world \<Rightarrow> string \<Rightarrow> EnteFile \<Rightarrow> exn + string" where
  "createRenderableURL D W castToken f =
     await (renderableImageBlob D W castToken f) (\<lambda>imageBlob.
     await (if needsResize D f then resize D imageBlob else Inr imageBlob) (\<lambda>resizedBlob.
     Inr (createObjectURL W resizedBlob)))"

subsection \<open>The collection diff fetcher\<close>

record diff_response =
  diff :: "EncryptedEnteFile list"
  hasMore :: bool

text \<open>
  The server is a function from the number of the request (counted from 0 within one
  invocation), the \<open>sinceTime\<close> sent and the cast token to the response or a failure. The
  loop may go on forever, when the server never clears \<open>hasMore\<close>: not returning is
  \<open>None\<close>. Besides the result the model returns the \<open>sinceTime\<close> of every request sent,
  in order.
\<close>

partial_function (option) do_while ::
  "(nat \<Rightarrow> int \<Rightarrow> string \<Rightarrow> exn + diff_response) \<Rightarrow> string \<Rightarrow> nat
     \<Rightarrow> EncryptedEnteFile list \<Rightarrow> int \<Rightarrow> int list
     \<Rightarrow> ((exn + EncryptedEnteFile list) \<times> int list) option" where
  "do_while server castToken n files sinceTime sent =
     (case server n sinceTime castToken of
        Inl e \<Rightarrow> Some (Inl e, sent @ [sinceTime])
      | Inr resp \<Rightarrow>
          let files' = files @ filter (\<lambda>f. \<not> isDeleted f) (diff resp);
              sinceTime' = foldl (\<lambda>mx f. max mx (updationTime f)) sinceTime (diff resp)
          in if hasMore resp
             then do_while server castToken (n + 1) files' sinceTime' (sent @ [sinceTime])
             else Some (Inr files', sent @ [sinceTime]))"

definition getEncryptedCollectionFiles ::
  "(nat \<Rightarrow> int \<Rightarrow> string \<Rightarrow> exn + diff_response) \<Rightarrow> string
     \<Rightarrow> ((exn + EncryptedEnteFile list) \<times> int list) option" where
  "getEncryptedCollectionFiles server castToken = do_while server castToken 0 [] 0 []"

subsection \<open>The generator\<close>

record CastData =
  collectionKey :: string
  castToken :: string

text \<open>
  The locals that outlive one iteration, and the trace of what the generator has done
  to the outside, oldest first.
\<close>

datatype event = Revoked string | Waited int | Logged exn | Yielded string

record gen_state =
  previousURLs :: "string list"
  lastYieldTime :: int
  consecutiveFailures :: nat
  trace :: "event list"

definition slideDuration :: int where
  "slideDuration = 12000"

text \<open>Lines 72 to 96; \<open>t0\<close> is the reading of \<open>Date.now()\<close> on line 83.\<close>

definition initialState :: "int \<Rightarrow> gen_state" where
  "initialState t0 =
     \<lparr>previousURLs = [], lastYieldTime = t0 - (slideDuration - 2500),
      consecutiveFailures = 0, trace = []\<rparr>"

text \<open>Lines 143 to 146: revoke the URL shown before the current one, then push.\<close>

definition dispose :: "string \<Rightarrow> gen_state \<Rightarrow> gen_state" where
  "dispose url s =
     (let s1 = (if length (previousURLs s) > 1
                then s\<lparr>previousURLs := tl (previousURLs s),
                       trace := trace s @ [Revoked (hd (previousURLs s))]\<rparr>
                else s)
      in s1\<lparr>previousURLs := previousURLs s1 @ [url]\<rparr>)"

text \<open>Lines 148 to 152: the argument of \<open>wait\<close>, or \<open>None\<close> when \<open>wait\<close> is not called.\<close>

definition pacingWait :: "int \<Rightarrow> int \<Rightarrow> int option" where
  "pacingWait lastYield now =
     (let elapsedTime = now - lastYield
      in if elapsedTime > 0 \<and> elapsedTime < slideDuration
         then Some (slideDuration - elapsedTime) else None)"

text \<open>Lines 148 to 155.\<close>

definition pace :: "world \<Rightarrow> string \<Rightarrow> gen_state \<Rightarrow> gen_state" where
  "pace W url s =
     (let s1 = (case pacingWait (lastYieldTime s) (nowBeforeWait W) of
                  Some ms \<Rightarrow> s\<lparr>trace := trace s @ [Waited ms]\<rparr>
                | None \<Rightarrow> s)
      in s1\<lparr>lastYieldTime := nowAtYield W, trace := trace s1 @ [Yielded url]\<rparr>)"

definition is401 :: "exn \<Rightarrow> bool" where
  "is401 e = (case e of ApiError c \<Rightarrow> c = 401 | Error _ \<Rightarrow> False)"

text \<open>
  The \<open>catch\<close> block, lines 116 to 134. The result is \<open>Inl e\<close> when \<open>e\<close> is rethrown and
  \<open>Inr haveEligibleFiles\<close> when the loop continues.
\<close>

definition catch_block :: "exn \<Rightarrow> gen_state \<Rightarrow> bool \<Rightarrow> (exn + bool) \<times> gen_state" where
  "catch_block e s haveEligibleFiles =
     (let s1 = s\<lparr>consecutiveFailures := consecutiveFailures s + 1\<rparr>
      in if consecutiveFailures s1 = 3 then (Inl e, s1)
         else if is401 e then (Inl e, s1)
         else (Inr haveEligibleFiles, s1\<lparr>trace := trace s1 @ [Logged e]\<rparr>))"

text \<open>
  One file of a pass: the encrypted record and what the world answers while it is
  processed.
\<close>

record item =
  encryptedFile :: EncryptedEnteFile
  env :: world

text \<open>One iteration of the \<open>for\<close> loop, lines 105 to 156.\<close>

definition loop_body ::
  "deps \<Rightarrow> CastData \<Rightarrow> gen_state \<Rightarrow> bool \<Rightarrow> item \<Rightarrow> (exn + bool) \<times> gen_state" where
  "loop_body D castData s haveEligibleFiles it =
     (case decryptEnteFile D (encryptedFile it) (collectionKey castData) of
        Inl e \<Rightarrow> (Inl e, s)
      | Inr f \<Rightarrow>
          if \<not> isFileEligible D f then (Inr haveEligibleFiles, s)
          else
            (case createRenderableURL D (env it) (castToken castData) f of
               Inr url \<Rightarrow>
                 (Inr True, pace (env it) url (dispose url (s\<lparr>consecutiveFailures := 0\<rparr>)))
             | Inl e \<Rightarrow> catch_block e s haveEligibleFiles))"

fun for_files ::
  "deps \<Rightarrow> CastData \<Rightarrow> gen_state \<Rightarrow> bool \<Rightarrow> item list \<Rightarrow> (exn + bool) \<times> gen_state" where
  "for_files D castData s haveEligibleFiles [] = (Inr haveEligibleFiles, s)"
| "for_files D castData s haveEligibleFiles (it # rest) =
     (case loop_body D castData s haveEligibleFiles it of
        (Inl e, s') \<Rightarrow> (Inl e, s')
      | (Inr haveEligibleFiles', s') \<Rightarrow> for_files D castData s' haveEligibleFiles' rest)"

text \<open>
  How a run stands: returned (\<open>Done\<close>), ended by a thrown error, or still going when
  the answers supplied to the model are used up.
\<close>

datatype outcome = Done | Threw exn | Running

text \<open>
  The \<open>while (true)\<close> loop. A pass is what
  \<open>shuffled(await getEncryptedCollectionFiles(castToken))\<close> evaluates to in it: \<open>Inl e\<close>
  when the fetch throws, else the shuffled files, each with the answers of the world.
\<close>

fun while_true ::
  "deps \<Rightarrow> CastData \<Rightarrow> gen_state \<Rightarrow> (exn + item list) list \<Rightarrow> outcome \<times> gen_state" where
  "while_true D castData s [] = (Running, s)"
| "while_true D castData s (p # passes) =
     (case p of
        Inl e \<Rightarrow> (Threw e, s)
      | Inr encryptedFiles \<Rightarrow>
          (case for_files D castData s False encryptedFiles of
             (Inl e, s') \<Rightarrow> (Threw e, s')
           | (Inr haveEligibleFiles, s') \<Rightarrow>
               if \<not> haveEligibleFiles then (Done, s')
               else while_true D castData s' passes))"

definition imageURLGenerator ::
  "deps \<Rightarrow> CastData \<Rightarrow> int \<Rightarrow> (exn + item list) list \<Rightarrow> outcome \<times> gen_state" where
  "imageURLGenerator D castData t0 passes = while_true D castData (initialState t0) passes"

text \<open>
  The generator resumed in the middle of a pass: the files of the pass still to be
  visited, the end-of-pass check, then the later passes.
\<close>

definition resume ::
  "deps \<Rightarrow> CastData \<Rightarrow> gen_state \<Rightarrow> bool \<Rightarrow> item list \<Rightarrow> (exn + item list) list
     \<Rightarrow> outcome \<times> gen_state" where
  "resume D castData s haveEligibleFiles rest passes =
     (case for_files D castData s haveEligibleFiles rest of
        (Inl e, s') \<Rightarrow> (Threw e, s')
      | (Inr haveEligibleFiles', s') \<Rightarrow>
          if \<not> haveEligibleFiles' then (Done, s')
          else while_true D castData s' passes)"

subsection \<open>What happens to one file, and what a trace shows\<close>

text \<open>
  The three ways a file can go before the \<open>try\<close> block is left: its decryption fails,
  the filter rejects it, or \<open>createRenderableURL\<close> is called on it and returns a URL or
  throws.
\<close>

definition decryptFails :: "deps \<Rightarrow> CastData \<Rightarrow> item \<Rightarrow> exn \<Rightarrow> bool" where
  "decryptFails D castData it e =
     (decryptEnteFile D (encryptedFile it) (collectionKey castData) = Inl e)"

definition filteredOut :: "deps \<Rightarrow> CastData \<Rightarrow> item \<Rightarrow> bool" where
  "filteredOut D castData it =
     (case decryptEnteFile D (encryptedFile it) (collectionKey castData) of
        Inl e \<Rightarrow> False
      | Inr f \<Rightarrow> \<not> isFileEligible D f)"

definition materialization :: "deps \<Rightarrow> CastData \<Rightarrow> item \<Rightarrow> (exn + string) option" where
  "materialization D castData it =
     (case decryptEnteFile D (encryptedFile it) (collectionKey castData) of
        Inl e \<Rightarrow> None
      | Inr f \<Rightarrow>
          if isFileEligible D f
          then Some (createRenderableURL D (env it) (castToken castData) f)
          else None)"

text \<open>The URLs a trace yields, in order.\<close>

fun yielded :: "event list \<Rightarrow> string list" where
  "yielded [] = []"
| "yielded (Yielded url # es) = url # yielded es"
| "yielded (Revoked url # es) = yielded es"
| "yielded (Waited ms # es) = yielded es"
| "yielded (Logged e # es) = yielded es"

text \<open>The wait that precedes the first yield of a trace, when there is one.\<close>

fun first_wait :: "event list \<Rightarrow> int option" where
  "first_wait [] = None"
| "first_wait (Waited ms # es) = Some ms"
| "first_wait (Yielded url # es) = None"
| "first_wait (Revoked url # es) = first_wait es"
| "first_wait (Logged e # es) = first_wait es"

text \<open>The URLs a trace revokes, in order.\<close>

fun revoked :: "event list \<Rightarrow> string list" where
  "revoked [] = []"
| "revoked (Revoked url # es) = url # revoked es"
| "revoked (Yielded url # es) = revoked es"
| "revoked (Waited ms # es) = revoked es"
| "revoked (Logged e # es) = revoked es"

text \<open>The durations a trace waits, in order.\<close>

fun waited :: "event list \<Rightarrow> int list" where
  "waited [] = []"
| "waited (Waited ms # es) = ms # waited es"
| "waited (Yielded url # es) = waited es"
| "waited (Revoked url # es) = waited es"
| "waited (Logged e # es) = waited es"

text \<open>
  The playback window is sound when it holds at most two URLs and they are exactly the
  URLs yielded and not yet revoked, oldest first.
\<close>

definition window_ok :: "gen_state \<Rightarrow> bool" where
  "window_ok s =
     (length (previousURLs s) \<le> 2
      \<and> yielded (trace s) = revoked (trace s) @ previousURLs s)"

text \<open>
  Until the first yield the time of the last yield is still the one set at the start and
  nothing has been waited for; and the wait before the first yield, once there is one,
  is at most 2500 ms.
\<close>

definition pacing_inv :: "int \<Rightarrow> gen_state \<Rightarrow> bool" where
  "pacing_inv t0 s =
     ((yielded (trace s) = [] \<longrightarrow>
         lastYieldTime s = lastYieldTime (initialState t0) \<and> first_wait (trace s) = None)
      \<and> (\<forall>ms. first_wait (trace s) = Some ms \<longrightarrow> ms \<le> 2500))"

subsection \<open>What the fetcher is expected to compute\<close>

text \<open>
  In the words of the specification: the cursor after some pages is the maximum
  \<open>updationTime\<close> seen in them, and 0 when nothing higher has been seen; the result of
  the fetcher is the entries of the pages whose deletion flag is unset, in page order.
\<close>

definition cursorAfter :: "diff_response list \<Rightarrow> int" where
  "cursorAfter pages = Max (insert 0 (updationTime ` set (concat (map diff pages))))"

definition liveFiles :: "diff_response list \<Rightarrow> EncryptedEnteFile list" where
  "liveFiles pages = concat (map (\<lambda>p. filter (\<lambda>f. \<not> isDeleted f) (diff p)) pages)"

text \<open>The cursor of the loop after some pages when it was \<open>c\<close> before them.\<close>

definition cursorFrom :: "int \<Rightarrow> diff_response list \<Rightarrow> int" where
  "cursorFrom c pages = foldl (\<lambda>mx f. max mx (updationTime f)) c (concat (map diff pages))"

subsection \<open>An instance of the parameters, for the examples\<close>

text \<open>
  A toy world in which the theorems below are exercised. Encryption is transparent: the
  encrypted metadata of a record is its title, the decryption header of the metadata
  names its kind, and the public overlay is written out in its data. The sniffer reads
  the first byte, \<open>1\<close> for HEIC.
\<close>

definition ex_nameAndExtension :: "string \<Rightarrow> string \<times> string option" where
  "ex_nameAndExtension n =
     (let stem = drop 1 (dropWhile (\<lambda>c. c \<noteq> CHR ''.'') (rev n))
      in if stem = [] then (n, None)
         else (rev stem, Some (rev (takeWhile (\<lambda>c. c \<noteq> CHR ''.'') (rev n)))))"

definition ex_pub :: "string \<Rightarrow> FilePublicMagicMetadataProps" where
  "ex_pub d =
     \<lparr>editedTime = (if d = ''epoch'' then Some 0 else if d = ''edited'' then Some 2000 else None),
      editedName = (if d = ''blank'' then Some [] else if d = ''edited'' then Some ''b.jpg''
                    else None),
      caption = None, pm_w = None, pm_h = None\<rparr>"

definition ex_deps :: deps where
  "ex_deps =
     \<lparr>nameAndExtension = ex_nameAndExtension,
      isNonWebImageFileExtension = (\<lambda>e. e = Some ''heic'' \<or> e = Some ''tiff''),
      isHEICExtension = (\<lambda>e. e = Some ''heic'' \<or> e = Some ''heif''),
      decryptB64 = (\<lambda>k n ck. if k = ''garbled'' then Inl (Error ''decryption failed'')
                              else Inr k),
      decryptMetadata = (\<lambda>d h k. Inr \<lparr>title = d, creationTime = 1000, modificationTime = 1000,
                                      fileType = (if h = ''video'' then VIDEO
                                                  else if h = ''live'' then LIVE_PHOTO
                                                  else IMAGE)\<rparr>),
      decryptMetadata_magic = (\<lambda>d h k. Inr []),
      decryptMetadata_pub = (\<lambda>d h k. Inr (ex_pub d)),
      fromB64 = (\<lambda>s. Inr []),
      decryptFile = (\<lambda>d h k. Inr d),
      isChromecast = False,
      getCastFileURL = (\<lambda>i. ''/cast/files/download''),
      getCastThumbnailURL = (\<lambda>i. ''/cast/files/preview''),
      decodeLivePhoto = (\<lambda>n b. Inr (blob_data b, n)),
      detectMediaMIMEType = (\<lambda>n b. Inr (if blob_data b = [] then None
                                          else if hd (blob_data b) = 1 then Some ''image/heic''
                                          else Some ''image/jpeg'')),
      heicToJPEG = (\<lambda>b. Inr \<lparr>blob_data = 255 # blob_data b, blob_type = ''image/jpeg''\<rparr>),
      resize = (\<lambda>b. Inr b)\<rparr>"

text \<open>A record with the given title, kind, size, key and public overlay.\<close>

definition ex_record ::
  "string \<Rightarrow> string \<Rightarrow> int \<Rightarrow> string \<Rightarrow> string option \<Rightarrow> EncryptedEnteFile" where
  "ex_record name kind sz k pub =
     \<lparr>file_id = 1, info = \<lparr>fileSize = sz\<rparr>,
      file_obj = \<lparr>encryptedData = [], decryptionHeader = ''h''\<rparr>,
      thumbnail = \<lparr>encryptedData = [], decryptionHeader = ''h''\<rparr>,
      isDeleted = False, updationTime = 5,
      metadata = \<lparr>encryptedData = name, decryptionHeader = kind\<rparr>,
      magicMetadata = None,
      pubMagicMetadata =
        (case pub of None \<Rightarrow> None
         | Some d \<Rightarrow> Some \<lparr>version = 1, count = 1, data = d, header = ''h''\<rparr>),
      encryptedKey = k, keyDecryptionNonce = ''n''\<rparr>"

text \<open>
  Worlds: the download answers with the given bytes, fails with the given error, and
  the clock reads \<open>t\<close> before the wait and \<open>t'\<close> at the yield.
\<close>

definition ex_world :: "exn + bytes option \<Rightarrow> string \<Rightarrow> int \<Rightarrow> int \<Rightarrow> world" where
  "ex_world resp url t t' =
     \<lparr>httpGet = (\<lambda>u tok. resp), createObjectURL = (\<lambda>b. url),
      nowBeforeWait = t, nowAtYield = t'\<rparr>"

definition ex_cast :: CastData where
  "ex_cast = \<lparr>collectionKey = ''ck'', castToken = ''tok''\<rparr>"

text \<open>The decrypted file with the given title, kind and size.\<close>

definition ex_file :: "string \<Rightarrow> FILE_TYPE \<Rightarrow> int \<Rightarrow> EnteFile" where
  "ex_file name kind sz =
     \<lparr>file_id = 1, info = \<lparr>fileSize = sz\<rparr>,
      file_obj = \<lparr>encryptedData = [], decryptionHeader = ''h''\<rparr>,
      thumbnail = \<lparr>encryptedData = [], decryptionHeader = ''h''\<rparr>,
      isDeleted = False, updationTime = 5,
      metadata = \<lparr>title = name, creationTime = 1000, modificationTime = 1000, fileType = kind\<rparr>,
      magicMetadata = None, pubMagicMetadata = None, key = ''k''\<rparr>"

text \<open>A file of a pass: the record and the world it meets.\<close>

definition ex_item :: "EncryptedEnteFile \<Rightarrow> world \<Rightarrow> item" where
  "ex_item r W = \<lparr>encryptedFile = r, env = W\<rparr>"

text \<open>
  Files of a pass in the toy world: a photo whose download is answered as given, a
  video, and a photo whose key does not decrypt.
\<close>

definition ex_photo :: "exn + bytes option \<Rightarrow> string \<Rightarrow> int \<Rightarrow> int \<Rightarrow> item" where
  "ex_photo resp url t t' =
     ex_item (ex_record ''a.jpg'' ''image'' 10 ''k'' None) (ex_world resp url t t')"

definition ex_video :: item where
  "ex_video =
     ex_item (ex_record ''a.mp4'' ''video'' 10 ''k'' None)
       (ex_world (Inr (Some [2, 3])) ''blob:v'' 0 0)"

definition ex_garbled :: item where
  "ex_garbled =
     ex_item (ex_record ''a.jpg'' ''image'' 10 ''garbled'' None)
       (ex_world (Inr (Some [2, 3])) ''blob:g'' 0 0)"

text \<open>
  A server with two pages: the first holds a live file and a deleted one updated at 9
  and announces more, the second holds one live file updated at 7.
\<close>

definition ex_page0 :: diff_response where
  "ex_page0 =
     \<lparr>diff = [ex_record ''a.jpg'' ''image'' 10 ''k'' None,
              (ex_record ''b.jpg'' ''image'' 10 ''k'' None)\<lparr>isDeleted := True, updationTime := 9\<rparr>],
      hasMore = True\<rparr>"

definition ex_page1 :: diff_response where
  "ex_page1 =
     \<lparr>diff = [(ex_record ''c.jpg'' ''image'' 10 ''k'' None)\<lparr>updationTime := 7\<rparr>],
      hasMore = False\<rparr>"

definition ex_server :: "nat \<Rightarrow> int \<Rightarrow> string \<Rightarrow> exn + diff_response" where
  "ex_server n sinceTime tok =
     (if n = 0 \<and> sinceTime = 0 then Inr ex_page0
      else if n = 1 \<and> sinceTime = 9 then Inr ex_page1
      else Inl (Error ''unexpected request''))"

text \<open>A server that always has an empty page and more to come.\<close>

definition ex_endless :: "nat \<Rightarrow> int \<Rightarrow> string \<Rightarrow> exn + diff_response" where
  "ex_endless n sinceTime tok = Inr \<lparr>diff = [], hasMore = True\<rparr>"

section \<open>Properties\<close>

lemma await_Inr: "await (Inr x) k = k x"
  by (simp add: await_def)

lemma await_Inl: "await (Inl e) k = Inl e"
  by (simp add: await_def)

lemma ex_nameAndExtension_values:
  "ex_nameAndExtension ''a.heic'' = (''a'', Some ''heic'')"
  "ex_nameAndExtension ''a.tiff'' = (''a'', Some ''tiff'')"
  "ex_nameAndExtension ''a.jpg'' = (''a'', Some ''jpg'')"
  "ex_nameAndExtension ''b.jpg'' = (''b'', Some ''jpg'')"
  by (simp_all add: ex_nameAndExtension_def)

subsection \<open>The eligibility filter\<close>

text \<open>
  C7. The filter rejects every file whose kind is neither image nor live photo, and
  every file whose declared size is above 100 MiB (104857600 bytes), whatever its name.
  For a file that passes both checks: when the extension of its title is a non-web image
  extension the file is eligible exactly when the extension is a HEIC one, and otherwise
  it is eligible.
\<close>

theorem isFileEligible_filter:
  "(fileType (metadata f) \<noteq> IMAGE \<and> fileType (metadata f) \<noteq> LIVE_PHOTO
      \<longrightarrow> \<not> isFileEligible D f)
   \<and> (fileSize (info f) > 104857600 \<longrightarrow> \<not> isFileEligible D f)
   \<and> ((fileType (metadata f) = IMAGE \<or> fileType (metadata f) = LIVE_PHOTO)
        \<and> fileSize (info f) \<le> 104857600 \<longrightarrow>
        (let extension = snd (nameAndExtension D (title (metadata f)))
         in (isNonWebImageFileExtension D extension \<longrightarrow>
               isFileEligible D f = isHEICExtension D extension)
            \<and> (\<not> isNonWebImageFileExtension D extension \<longrightarrow> isFileEligible D f)))"
  by (simp add: isFileEligible_def isImageOrLivePhoto_def Let_def)

theorem isFileEligible_filter_witness:
  "\<not> isFileEligible ex_deps (ex_file ''a.jpg'' VIDEO 10)
   \<and> \<not> isFileEligible ex_deps (ex_file ''a.jpg'' IMAGE 104857601)
   \<and> isFileEligible ex_deps (ex_file ''a.heic'' IMAGE 104857600)
   \<and> \<not> isFileEligible ex_deps (ex_file ''a.tiff'' LIVE_PHOTO 10)
   \<and> isFileEligible ex_deps (ex_file ''a.jpg'' LIVE_PHOTO 10)"
  using isFileEligible_filter [of "ex_file ''a.jpg'' VIDEO 10" ex_deps]
    isFileEligible_filter [of "ex_file ''a.jpg'' IMAGE 104857601" ex_deps]
    isFileEligible_filter [of "ex_file ''a.heic'' IMAGE 104857600" ex_deps]
    isFileEligible_filter [of "ex_file ''a.tiff'' LIVE_PHOTO 10" ex_deps]
    isFileEligible_filter [of "ex_file ''a.jpg'' LIVE_PHOTO 10" ex_deps]
  by (simp add: ex_file_def ex_deps_def Let_def ex_nameAndExtension_values)

subsection \<open>The file decryptor\<close>

text \<open>
  C6, as the code has it. When the four decryptions succeed, \<open>decryptEnteFile\<close> returns a
  file whose creation time is the public overlay's \<open>editedTime\<close> when the overlay has one
  that is not 0, and whose title is the overlay's \<open>editedName\<close> when the overlay has one
  that is not empty; a field the overlay lacks, an \<open>editedTime\<close> of 0 and an empty
  \<open>editedName\<close> leave the value of the core metadata, as does a record with no public
  overlay. The other core fields are never touched.
\<close>

theorem decryptEnteFile_overlay:
  assumes "decryptB64 D (encryptedKey enc) (keyDecryptionNonce enc) ck = Inr k"
    and "decryptMetadata D (encryptedData (metadata enc)) (decryptionHeader (metadata enc)) k
           = Inr core"
    and "decryptMagic (decryptMetadata_magic D) (magicMetadata enc) k = Inr g"
    and "decryptMagic (decryptMetadata_pub D) (pubMagicMetadata enc) k = Inr p"
  shows "\<exists>f. decryptEnteFile D enc ck = Inr f
           \<and> pubMagicMetadata f = p \<and> magicMetadata f = g \<and> key f = k
           \<and> creationTime (metadata f) =
               (case p of None \<Rightarrow> creationTime core
                | Some pm \<Rightarrow> (case editedTime (data pm) of None \<Rightarrow> creationTime core
                    | Some t \<Rightarrow> if t \<noteq> 0 then t else creationTime core))
           \<and> title (metadata f) =
               (case p of None \<Rightarrow> title core
                | Some pm \<Rightarrow> (case editedName (data pm) of None \<Rightarrow> title core
                    | Some n \<Rightarrow> if n \<noteq> [] then n else title core))
           \<and> fileType (metadata f) = fileType core
           \<and> modificationTime (metadata f) = modificationTime core"
  using assms
  by (simp add: decryptEnteFile_def await_Inr Let_def truthy_number_def truthy_string_def
      pub_editedTime_def pub_editedName_def split: option.splits)

theorem decryptEnteFile_overlay_witness:
  "\<exists>f. decryptEnteFile ex_deps (ex_record ''a.jpg'' ''image'' 10 ''k'' (Some ''edited'')) ''ck''
          = Inr f
        \<and> creationTime (metadata f) = 2000 \<and> title (metadata f) = ''b.jpg''
        \<and> fileType (metadata f) = IMAGE"
proof -
  let ?r = "ex_record ''a.jpg'' ''image'' 10 ''k'' (Some ''edited'')"
  let ?core = "\<lparr>title = ''a.jpg'', creationTime = 1000, modificationTime = 1000,
                 fileType = IMAGE\<rparr>"
  let ?p = "Some \<lparr>version = 1, count = 1, data = ex_pub ''edited'', header = ''h''\<rparr>"
  have k: "decryptB64 ex_deps (encryptedKey ?r) (keyDecryptionNonce ?r) ''ck'' = Inr ''k''"
    by (simp add: ex_deps_def ex_record_def)
  have c: "decryptMetadata ex_deps (encryptedData (metadata ?r))
             (decryptionHeader (metadata ?r)) ''k'' = Inr ?core"
    by (simp add: ex_deps_def ex_record_def)
  have g: "decryptMagic (decryptMetadata_magic ex_deps) (magicMetadata ?r) ''k'' = Inr None"
    by (simp add: ex_record_def decryptMagic_def)
  have p: "decryptMagic (decryptMetadata_pub ex_deps) (pubMagicMetadata ?r) ''k'' = Inr ?p"
    by (simp add: ex_deps_def ex_record_def decryptMagic_def await_Inr)
  from decryptEnteFile_overlay [OF k c g p] show ?thesis
    by (auto simp add: ex_pub_def)
qed

text \<open>
  C6 as stated fails where the overlay defines \<open>editedTime\<close> as 0: the guard
  \<open>if (file.pubMagicMetadata?.data.editedTime)\<close> tests truthiness, so the decrypted file
  keeps the creation time 1000 of the core metadata although its overlay says 0. In the
  same way an overlay whose \<open>editedName\<close> is the empty string leaves the title.
\<close>

theorem decryptEnteFile_epoch_counterexample:
  "isl (decryptEnteFile ex_deps (ex_record ''a.jpg'' ''image'' 10 ''k'' (Some ''epoch'')) ''ck'')
     = False
   \<and> pub_editedTime (projr (decryptEnteFile ex_deps
         (ex_record ''a.jpg'' ''image'' 10 ''k'' (Some ''epoch'')) ''ck'')) = Some 0
   \<and> creationTime (metadata (projr (decryptEnteFile ex_deps
         (ex_record ''a.jpg'' ''image'' 10 ''k'' (Some ''epoch'')) ''ck''))) = 1000
   \<and> isl (decryptEnteFile ex_deps (ex_record ''a.jpg'' ''image'' 10 ''k'' (Some ''blank'')) ''ck'')
     = False
   \<and> pub_editedName (projr (decryptEnteFile ex_deps
         (ex_record ''a.jpg'' ''image'' 10 ''k'' (Some ''blank'')) ''ck'')) = Some []
   \<and> title (metadata (projr (decryptEnteFile ex_deps
         (ex_record ''a.jpg'' ''image'' 10 ''k'' (Some ''blank'')) ''ck''))) = ''a.jpg''"
  by (simp add: decryptEnteFile_def ex_deps_def ex_record_def ex_pub_def decryptMagic_def
      await_Inr Let_def truthy_number_def truthy_string_def pub_editedTime_def
      pub_editedName_def)

subsection \<open>The content materializer\<close>

text \<open>
  C10. When the type sniffed from the bytes handed to the sniffer is \<open>image/heic\<close> or
  \<open>image/heif\<close> and the transcoding succeeds, \<open>renderableImageBlob\<close> returns the bytes
  of the JPEG under the sniffed type: the type of the returned blob is the type sniffed
  before the transcoding, whatever type the transcoder gave its JPEG.
\<close>

theorem renderableImageBlob_heic_type:
  assumes "sniffedInput D W tok f = Inr (fileName, blob)"
    and "detectMediaMIMEType D fileName blob = Inr (Some m)"
    and "m = ''image/heic'' \<or> m = ''image/heif''"
    and "heicToJPEG D blob = Inr jpeg"
  shows "renderableImageBlob D W tok f = Inr \<lparr>blob_data = blob_data jpeg, blob_type = m\<rparr>"
  using assms
  by (auto simp add: renderableImageBlob_def await_Inr truthy_string_def)

lemma ex_sniffedInput:
  "sniffedInput ex_deps (ex_world (Inr (Some [1, 2])) ''blob:1'' 0 0) ''tok''
     (ex_file ''a.heic'' IMAGE 10) = Inr (''a.heic'', \<lparr>blob_data = [1, 2], blob_type = []\<rparr>)"
  by (simp add: sniffedInput_def downloadFile_def shouldUseThumbnail_def ex_deps_def
      ex_world_def ex_file_def isImageOrLivePhoto_def await_Inr Let_def)

theorem renderableImageBlob_heic_type_witness:
  "heicToJPEG ex_deps \<lparr>blob_data = [1, 2], blob_type = []\<rparr>
     = Inr \<lparr>blob_data = [255, 1, 2], blob_type = ''image/jpeg''\<rparr>
   \<and> renderableImageBlob ex_deps (ex_world (Inr (Some [1, 2])) ''blob:1'' 0 0) ''tok''
       (ex_file ''a.heic'' IMAGE 10)
     = Inr \<lparr>blob_data = [255, 1, 2], blob_type = ''image/heic''\<rparr>"
  using renderableImageBlob_heic_type [of ex_deps
      "ex_world (Inr (Some [1, 2])) ''blob:1'' 0 0" "''tok''" "ex_file ''a.heic'' IMAGE 10"
      "''a.heic''" "\<lparr>blob_data = [1, 2], blob_type = []\<rparr>" "''image/heic''"
      "\<lparr>blob_data = [255, 1, 2], blob_type = ''image/jpeg''\<rparr>"]
    ex_sniffedInput
  by (simp add: ex_deps_def)

subsection \<open>The collection diff fetcher\<close>

lemma foldl_max_Max:
  "foldl (\<lambda>mx f. max mx (updationTime f)) c fs = Max (insert c (updationTime ` set fs))"
proof (induction fs arbitrary: c)
  case Nil
  show ?case by simp
next
  case (Cons f fs)
  have "Max (insert (max c (updationTime f)) (updationTime ` set fs))
          = Max (insert c (insert (updationTime f) (updationTime ` set fs)))"
    by (cases "fs = []") (simp_all add: max.assoc)
  with Cons.IH [of "max c (updationTime f)"] show ?case by simp
qed

lemma cursorFrom_Nil [simp]: "cursorFrom c [] = c"
  by (simp add: cursorFrom_def)

lemma cursorFrom_Cons:
  "cursorFrom c (p # ps) = cursorFrom (foldl (\<lambda>mx f. max mx (updationTime f)) c (diff p)) ps"
  by (simp add: cursorFrom_def)

lemma cursorFrom_cursorAfter: "cursorFrom 0 pages = cursorAfter pages"
  by (simp add: cursorFrom_def cursorAfter_def foldl_max_Max)

lemma do_while_pages:
  assumes "pages \<noteq> []"
    and "\<forall>i<length pages. hasMore (pages ! i) = (Suc i < length pages)"
    and "\<forall>i<length pages. server (n + i) (cursorFrom c (take i pages)) tok = Inr (pages ! i)"
  shows "do_while server tok n files c sent
           = Some (Inr (files @ liveFiles pages),
                   sent @ map (\<lambda>i. cursorFrom c (take i pages)) [0..<length pages])"
  using assms
proof (induction pages arbitrary: n files c sent)
  case Nil
  then show ?case by simp
next
  case (Cons p ps)
  let ?files = "files @ filter (\<lambda>f. \<not> isDeleted f) (diff p)"
  let ?c = "foldl (\<lambda>mx f. max mx (updationTime f)) c (diff p)"
  from Cons.prems(3) have first: "server n c tok = Inr p"
    by (auto dest: spec [of _ 0])
  from Cons.prems(2) have more: "hasMore p = (ps \<noteq> [])"
    by (auto dest: spec [of _ 0])
  show ?case
  proof (cases "ps = []")
    case True
    with first more show ?thesis
      by (subst do_while.simps) (simp add: liveFiles_def)
  next
    case False
    have h2: "\<forall>i<length ps. hasMore (ps ! i) = (Suc i < length ps)"
    proof (intro allI impI)
      fix i assume "i < length ps"
      with Cons.prems(2) [rule_format, of "Suc i"] show "hasMore (ps ! i) = (Suc i < length ps)"
        by simp
    qed
    have h3: "\<forall>i<length ps. server (Suc n + i) (cursorFrom ?c (take i ps)) tok = Inr (ps ! i)"
    proof (intro allI impI)
      fix i assume "i < length ps"
      with Cons.prems(3) [rule_format, of "Suc i"]
      show "server (Suc n + i) (cursorFrom ?c (take i ps)) tok = Inr (ps ! i)"
        by (simp add: cursorFrom_Cons)
    qed
    from Cons.IH [OF False h2 h3, of ?files "sent @ [c]"]
    have rest: "do_while server tok (Suc n) ?files ?c (sent @ [c])
                  = Some (Inr (?files @ liveFiles ps),
                          (sent @ [c]) @ map (\<lambda>i. cursorFrom ?c (take i ps)) [0..<length ps])" .
    have idx: "map (\<lambda>i. cursorFrom c (take i (p # ps))) [0..<Suc (length ps)]
                 = c # map (\<lambda>i. cursorFrom ?c (take i ps)) [0..<length ps]"
      by (simp add: map_upt_Suc cursorFrom_Cons del: upt_Suc)
    from first more False rest show ?thesis
      by (subst do_while.simps) (simp add: idx liveFiles_def del: upt_Suc)
  qed
qed

lemma cursorAfter_mono:
  "i \<le> j \<Longrightarrow> cursorAfter (take i pages) \<le> cursorAfter (take j pages)"
proof -
  assume "i \<le> j"
  then have "set (take i pages) \<subseteq> set (take j pages)"
    by (rule set_take_subset_set_take)
  then have "insert 0 (updationTime ` set (concat (map diff (take i pages))))
               \<subseteq> insert 0 (updationTime ` set (concat (map diff (take j pages))))"
    by auto
  then show ?thesis
    unfolding cursorAfter_def by (intro Max_mono) auto
qed

lemma do_while_forever_aux:
  assumes ret: "do_while server tok n files c sent = Some y"
  shows "\<not> (\<forall>n c. \<exists>resp. server n c tok = Inr resp \<and> hasMore resp)"
proof (rule do_while.raw_induct
    [where P = "\<lambda>srv tk n files c sent y. \<not> (\<forall>n c. \<exists>resp. srv n c tk = Inr resp \<and> hasMore resp)",
      OF _ ret], goal_cases)
  case (1 f srv tk m fs c' snt r)
  note IH = 1(1) and body = 1(2)
  show ?case
  proof
    assume all: "\<forall>n c. \<exists>resp. srv n c tk = Inr resp \<and> hasMore resp"
    then obtain resp where resp: "srv m c' tk = Inr resp" "hasMore resp" by blast
    from body resp have "f srv tk (m + 1)
        (fs @ filter (\<lambda>f. \<not> isDeleted f) (diff resp))
        (foldl (\<lambda>mx f. max mx (updationTime f)) c' (diff resp)) (snt @ [c']) = Some r"
      by (simp add: Let_def)
    then have "\<not> (\<forall>n c. \<exists>resp. srv n c tk = Inr resp \<and> hasMore resp)"
      by (rule IH)
    with all show False by blast
  qed
qed

lemma do_while_forever:
  assumes "\<forall>n c. \<exists>resp. server n c tok = Inr resp \<and> hasMore resp"
  shows "do_while server tok n files c sent = None"
  using do_while_forever_aux [of server tok n files c sent] assms
  by (cases "do_while server tok n files c sent") auto

text \<open>
  C8. Let the server answer the requests of one invocation with the pages \<open>pages\<close>, the
  last of which is the only one without \<open>hasMore\<close>, each request carrying the cursor the
  fetcher has reached by then. Then the fetcher returns, and returns the entries of all
  pages whose deletion flag is unset, concatenated in page order; it sends exactly one
  request for each page; the first request carries the cursor 0, and the request after
  \<open>i\<close> pages carries the maximum \<open>updationTime\<close> seen in them (0 when none was higher),
  so the cursor never decreases. And against a server that answers every request with
  \<open>hasMore\<close> set the fetcher goes on asking and never returns.
\<close>

theorem getEncryptedCollectionFiles_pages:
  assumes "pages \<noteq> []"
    and "\<forall>i<length pages. hasMore (pages ! i) = (Suc i < length pages)"
    and "\<forall>i<length pages. server i (cursorAfter (take i pages)) tok = Inr (pages ! i)"
  shows "getEncryptedCollectionFiles server tok
           = Some (Inr (liveFiles pages),
                   map (\<lambda>i. cursorAfter (take i pages)) [0..<length pages])
         \<and> cursorAfter (take 0 pages) = 0
         \<and> (\<forall>i j. i \<le> j \<longrightarrow> cursorAfter (take i pages) \<le> cursorAfter (take j pages))
         \<and> ((\<forall>n c. \<exists>resp. endless n c tok = Inr resp \<and> hasMore resp)
              \<longrightarrow> getEncryptedCollectionFiles endless tok = None)"
proof -
  from assms(3) have "\<forall>i<length pages. server (0 + i) (cursorFrom 0 (take i pages)) tok = Inr (pages ! i)"
    by (simp add: cursorFrom_cursorAfter)
  from do_while_pages [where server = server and tok = tok and pages = pages and n = 0
      and c = 0 and files = "[]" and sent = "[]", OF assms(1,2) this]
  have "getEncryptedCollectionFiles server tok
           = Some (Inr (liveFiles pages),
                   map (\<lambda>i. cursorAfter (take i pages)) [0..<length pages])"
    by (simp add: getEncryptedCollectionFiles_def cursorFrom_cursorAfter)
  moreover have "cursorAfter (take 0 pages) = 0"
    by (simp add: cursorAfter_def)
  moreover have "getEncryptedCollectionFiles endless tok = None"
    if "\<forall>n c. \<exists>resp. endless n c tok = Inr resp \<and> hasMore resp"
    unfolding getEncryptedCollectionFiles_def using that by (rule do_while_forever)
  ultimately show ?thesis
    using cursorAfter_mono by blast
qed

lemma ex_cursors:
  "cursorAfter [] = 0" "cursorAfter [ex_page0] = 9" "cursorAfter [ex_page0, ex_page1] = 9"
  by (simp_all add: cursorAfter_def ex_page0_def ex_page1_def ex_record_def)

theorem getEncryptedCollectionFiles_pages_witness:
  "getEncryptedCollectionFiles ex_server ''tok''
     = Some (Inr [ex_record ''a.jpg'' ''image'' 10 ''k'' None,
                  (ex_record ''c.jpg'' ''image'' 10 ''k'' None)\<lparr>updationTime := 7\<rparr>],
             [0, 9])
   \<and> getEncryptedCollectionFiles ex_endless ''tok'' = None"
proof -
  have ne: "[ex_page0, ex_page1] \<noteq> []" by simp
  have more: "\<forall>i<length [ex_page0, ex_page1].
               hasMore ([ex_page0, ex_page1] ! i) = (Suc i < length [ex_page0, ex_page1])"
    by (simp add: All_less_Suc ex_page0_def ex_page1_def)
  have srv: "\<forall>i<length [ex_page0, ex_page1].
               ex_server i (cursorAfter (take i [ex_page0, ex_page1])) ''tok''
                 = Inr ([ex_page0, ex_page1] ! i)"
    by (simp add: All_less_Suc ex_cursors ex_server_def)
  have sent: "map (\<lambda>i. cursorAfter (take i [ex_page0, ex_page1]))
                 [0..<length [ex_page0, ex_page1]] = [0, 9]"
    by (simp add: ex_cursors)
  have live: "liveFiles [ex_page0, ex_page1]
                = [ex_record ''a.jpg'' ''image'' 10 ''k'' None,
                   (ex_record ''c.jpg'' ''image'' 10 ''k'' None)\<lparr>updationTime := 7\<rparr>]"
    by (simp add: liveFiles_def ex_page0_def ex_page1_def ex_record_def)
  have forever: "\<forall>n c. \<exists>resp. ex_endless n c ''tok'' = Inr resp \<and> hasMore resp"
    by (simp add: ex_endless_def)
  note inst = getEncryptedCollectionFiles_pages [where server = ex_server and tok = "''tok''"
      and pages = "[ex_page0, ex_page1]" and endless = ex_endless, OF ne more srv]
  from inst [THEN conjunct1]
  have "getEncryptedCollectionFiles ex_server ''tok''
     = Some (Inr [ex_record ''a.jpg'' ''image'' 10 ''k'' None,
                  (ex_record ''c.jpg'' ''image'' 10 ''k'' None)\<lparr>updationTime := 7\<rparr>],
             [0, 9])"
    by (simp only: sent live)
  moreover from inst [THEN conjunct2, THEN conjunct2, THEN conjunct2, THEN mp, OF forever]
  have "getEncryptedCollectionFiles ex_endless ''tok'' = None" .
  ultimately show ?thesis by simp
qed

subsection \<open>One file, one pass\<close>

lemma loop_body_decryptFails:
  "decryptFails D cd it e \<Longrightarrow> loop_body D cd s h it = (Inl e, s)"
  by (simp add: decryptFails_def loop_body_def)

lemma loop_body_filteredOut:
  "filteredOut D cd it \<Longrightarrow> loop_body D cd s h it = (Inr h, s)"
  by (cases "decryptEnteFile D (encryptedFile it) (collectionKey cd)")
    (simp_all add: filteredOut_def loop_body_def)

lemma loop_body_materialized:
  "materialization D cd it = Some (Inr url) \<Longrightarrow>
   loop_body D cd s h it
     = (Inr True, pace (env it) url (dispose url (s\<lparr>consecutiveFailures := 0\<rparr>)))"
  by (cases "decryptEnteFile D (encryptedFile it) (collectionKey cd)")
    (auto simp add: materialization_def loop_body_def split: if_splits)

lemma loop_body_failed:
  "materialization D cd it = Some (Inl e) \<Longrightarrow> loop_body D cd s h it = catch_block e s h"
  by (cases "decryptEnteFile D (encryptedFile it) (collectionKey cd)")
    (auto simp add: materialization_def loop_body_def split: if_splits)

lemma for_files_skip:
  "\<forall>x\<in>set xs. filteredOut D cd x \<Longrightarrow>
   for_files D cd s h (xs @ rest) = for_files D cd s h rest"
  by (induction xs) (simp_all add: loop_body_filteredOut)

lemma for_files_failed:
  "materialization D cd it = Some (Inl e) \<Longrightarrow>
   for_files D cd s h (it # rest) =
     (if consecutiveFailures s + 1 = 3 \<or> is401 e
      then (Inl e, s\<lparr>consecutiveFailures := consecutiveFailures s + 1\<rparr>)
      else for_files D cd
             (s\<lparr>consecutiveFailures := consecutiveFailures s + 1, trace := trace s @ [Logged e]\<rparr>)
             h rest)"
  by (simp add: loop_body_failed catch_block_def Let_def)

lemma while_true_resume:
  "while_true D cd s (Inr files # passes) = resume D cd s False files passes"
  by (simp add: resume_def)

lemma resume_Nil:
  "resume D cd s h [] passes = (if h then while_true D cd s passes else (Done, s))"
  by (simp add: resume_def)

lemma resume_skip:
  "\<forall>x\<in>set xs. filteredOut D cd x \<Longrightarrow>
   resume D cd s h (xs @ rest) passes = resume D cd s h rest passes"
  by (simp add: resume_def for_files_skip)

lemma resume_failed:
  "materialization D cd it = Some (Inl e) \<Longrightarrow>
   resume D cd s h (it # rest) passes =
     (if consecutiveFailures s + 1 = 3 \<or> is401 e
      then (Threw e, s\<lparr>consecutiveFailures := consecutiveFailures s + 1\<rparr>)
      else resume D cd
             (s\<lparr>consecutiveFailures := consecutiveFailures s + 1, trace := trace s @ [Logged e]\<rparr>)
             h rest passes)"
  by (simp add: resume_def for_files_failed del: for_files.simps)

lemma consecutiveFailures_dispose [simp]:
  "consecutiveFailures (dispose url s) = consecutiveFailures s"
  by (simp add: dispose_def Let_def)

lemma consecutiveFailures_pace [simp]:
  "consecutiveFailures (pace W url s) = consecutiveFailures s"
  by (simp add: pace_def Let_def split: option.splits)

lemma resume_skip_all:
  "\<forall>x\<in>set xs. filteredOut D cd x \<Longrightarrow>
   resume D cd s h xs passes = (if h then while_true D cd s passes else (Done, s))"
  using resume_skip [of xs D cd s h "[]" passes] by (simp add: resume_Nil)

lemma pacingWait_cases:
  "pacingWait lastYield now =
     (if 0 < now - lastYield \<and> now - lastYield < 12000
      then Some (12000 - (now - lastYield)) else None)"
  by (simp add: pacingWait_def slideDuration_def Let_def)

subsection \<open>The toy world\<close>

lemma ex_decrypt_photo:
  "decryptEnteFile ex_deps (ex_record ''a.jpg'' ''image'' 10 ''k'' None) ''ck''
     = Inr (ex_file ''a.jpg'' IMAGE 10)"
  by (simp add: decryptEnteFile_def ex_deps_def ex_record_def ex_file_def decryptMagic_def
      await_Inr Let_def truthy_number_def truthy_string_def pub_editedTime_def
      pub_editedName_def)

lemma ex_eligible_photo: "isFileEligible ex_deps (ex_file ''a.jpg'' IMAGE 10)"
  by (simp add: isFileEligible_def isImageOrLivePhoto_def ex_file_def ex_deps_def Let_def
      ex_nameAndExtension_values)

lemma ex_render_ok:
  "createRenderableURL ex_deps (ex_world (Inr (Some [2, 3])) url t t') ''tok''
     (ex_file ''a.jpg'' IMAGE 10) = Inr url"
  by (simp add: createRenderableURL_def renderableImageBlob_def sniffedInput_def
      downloadFile_def shouldUseThumbnail_def needsResize_def isImageOrLivePhoto_def
      ex_deps_def ex_world_def ex_file_def await_Inr Let_def truthy_string_def)

lemma ex_render_fail:
  "createRenderableURL ex_deps (ex_world (Inl e) url t t') ''tok''
     (ex_file ''a.jpg'' IMAGE 10) = Inl e"
  by (simp add: createRenderableURL_def renderableImageBlob_def sniffedInput_def
      downloadFile_def shouldUseThumbnail_def isImageOrLivePhoto_def
      ex_deps_def ex_world_def ex_file_def await_Inl Let_def)

lemma ex_photo_ok:
  "materialization ex_deps ex_cast (ex_photo (Inr (Some [2, 3])) url t t') = Some (Inr url)"
  by (simp add: materialization_def ex_photo_def ex_item_def ex_cast_def ex_decrypt_photo
      ex_eligible_photo ex_render_ok)

lemma ex_photo_fail:
  "materialization ex_deps ex_cast (ex_photo (Inl e) url t t') = Some (Inl e)"
  by (simp add: materialization_def ex_photo_def ex_item_def ex_cast_def ex_decrypt_photo
      ex_eligible_photo ex_render_fail)

lemma ex_photo_env: "env (ex_photo resp url t t') = ex_world resp url t t'"
  by (simp add: ex_photo_def ex_item_def)

lemma ex_world_clock:
  "nowBeforeWait (ex_world resp url t t') = t" "nowAtYield (ex_world resp url t t') = t'"
  by (simp_all add: ex_world_def)

lemma ex_video_filteredOut: "filteredOut ex_deps ex_cast ex_video"
  by (simp add: filteredOut_def ex_video_def ex_item_def ex_cast_def decryptEnteFile_def
      ex_deps_def ex_record_def decryptMagic_def await_Inr Let_def truthy_number_def
      truthy_string_def pub_editedTime_def pub_editedName_def isFileEligible_def
      isImageOrLivePhoto_def)

lemma ex_garbled_decryptFails:
  "decryptFails ex_deps ex_cast ex_garbled (Error ''decryption failed'')"
  by (simp add: decryptFails_def ex_garbled_def ex_item_def ex_cast_def decryptEnteFile_def
      ex_deps_def ex_record_def await_Inl)

lemmas ex_run =
  imageURLGenerator_def initialState_def slideDuration_def
  loop_body_materialized [OF ex_photo_ok] loop_body_failed [OF ex_photo_fail]
  loop_body_filteredOut [OF ex_video_filteredOut]
  loop_body_decryptFails [OF ex_garbled_decryptFails]
  ex_photo_env ex_world_clock pace_def dispose_def pacingWait_cases catch_block_def
  is401_def Let_def

subsection \<open>The failure policy\<close>

text \<open>
  C1, as the code has it. \<open>decryptEnteFile\<close> is called before the \<open>try\<close> block, so a
  failure to decrypt a record is not caught: wherever the generator stands, it ends at
  once with that error; its state, the failure counter included, is as it was, and
  neither the rest of the pass nor a later pass is looked at.
\<close>

theorem decrypt_failure_propagates:
  "decryptFails D cd it e \<Longrightarrow> resume D cd s h (it # rest) passes = (Threw e, s)"
  by (simp add: resume_def loop_body_decryptFails)

theorem decrypt_failure_propagates_witness:
  "decryptFails ex_deps ex_cast ex_garbled (Error ''decryption failed'')
   \<and> resume ex_deps ex_cast (initialState 0) True
       [ex_garbled, ex_photo (Inr (Some [2, 3])) ''blob:1'' 1000 1000] []
     = (Threw (Error ''decryption failed''), initialState 0)"
  using decrypt_failure_propagates [OF ex_garbled_decryptFails, of "initialState 0" True
      "[ex_photo (Inr (Some [2, 3])) ''blob:1'' 1000 1000]" "[]"]
    ex_garbled_decryptFails
  by simp

text \<open>
  C1 as stated fails: with a first record that does not decrypt and a second that would
  render, the run ends with the decryption error, the counter still 0 and nothing
  yielded; the error was not caught, the counter not incremented and the second record
  not reached.
\<close>

theorem decrypt_failure_counterexample:
  "fst (imageURLGenerator ex_deps ex_cast 0
          [Inr [ex_garbled, ex_photo (Inr (Some [2, 3])) ''blob:1'' 1000 1000]])
     = Threw (Error ''decryption failed'')
   \<and> consecutiveFailures (snd (imageURLGenerator ex_deps ex_cast 0
          [Inr [ex_garbled, ex_photo (Inr (Some [2, 3])) ''blob:1'' 1000 1000]])) = 0
   \<and> trace (snd (imageURLGenerator ex_deps ex_cast 0
          [Inr [ex_garbled, ex_photo (Inr (Some [2, 3])) ''blob:1'' 1000 1000]])) = []"
  by (simp add: imageURLGenerator_def loop_body_decryptFails [OF ex_garbled_decryptFails]
      initialState_def)

text \<open>
  C3. When \<open>createRenderableURL\<close> fails on a file with an \<open>ApiError\<close> of status 401, the
  generator ends at once with that same error, whatever the state and so whatever the
  failure counter; the files after it and the later passes play no part.
\<close>

theorem auth_failure_rethrown:
  "materialization D cd it = Some (Inl (ApiError 401)) \<Longrightarrow>
   resume D cd s h (it # rest) passes
     = (Threw (ApiError 401), s\<lparr>consecutiveFailures := consecutiveFailures s + 1\<rparr>)"
  by (simp add: resume_failed is401_def)

theorem auth_failure_rethrown_witness:
  "materialization ex_deps ex_cast (ex_photo (Inl (ApiError 401)) ''blob:1'' 1000 1000)
     = Some (Inl (ApiError 401))
   \<and> resume ex_deps ex_cast (initialState 0) False
       [ex_photo (Inl (ApiError 401)) ''blob:1'' 1000 1000,
        ex_photo (Inr (Some [2, 3])) ''blob:2'' 2000 2000] []
     = (Threw (ApiError 401), (initialState 0)\<lparr>consecutiveFailures := 1\<rparr>)"
  using auth_failure_rethrown [where D = ex_deps and cd = ex_cast
      and it = "ex_photo (Inl (ApiError 401)) ''blob:1'' 1000 1000"
      and s = "initialState 0" and h = False
      and rest = "[ex_photo (Inr (Some [2, 3])) ''blob:2'' 2000 2000]" and passes = "[]"]
  by (simp add: ex_photo_fail initialState_def)

text \<open>
  C2. The counter is 0 at the start and right after every file that is materialized.
  From a point where the counter is 0, three files whose materialization fails with
  errors other than 401, with no success between them (files the filter rejects may lie
  between and before them), end the run with the error of the third; the first two are
  logged and nothing after the third is attempted. This holds when the three lie in one
  pass, and when the pass ends between them (the pass then has had a success before
  them, or the generator would have returned).
\<close>

theorem three_strikes:
  assumes zero: "consecutiveFailures s = 0"
    and a: "materialization D cd a = Some (Inl e1)" and e1: "\<not> is401 e1"
    and b: "materialization D cd b = Some (Inl e2)" and e2: "\<not> is401 e2"
    and c: "materialization D cd c = Some (Inl e3)"
    and skips: "\<forall>x \<in> set xs \<union> set ys \<union> set zs \<union> set us. filteredOut D cd x"
  shows "(materialization D cd it = Some (Inr url) \<longrightarrow>
            consecutiveFailures (snd (loop_body D cd s' h' it)) = 0)
         \<and> consecutiveFailures (initialState t0) = 0
         \<and> resume D cd s h (xs @ a # ys @ b # zs @ c # rest) passes
             = (Threw e3, s\<lparr>consecutiveFailures := 3, trace := trace s @ [Logged e1, Logged e2]\<rparr>)
         \<and> resume D cd s True (xs @ a # ys @ b # zs) (Inr (us @ c # rest) # passes)
             = (Threw e3, s\<lparr>consecutiveFailures := 3, trace := trace s @ [Logged e1, Logged e2]\<rparr>)
         \<and> resume D cd s True (xs @ a # ys) (Inr (zs @ b # us @ c # rest) # passes)
             = (Threw e3, s\<lparr>consecutiveFailures := 3, trace := trace s @ [Logged e1, Logged e2]\<rparr>)"
proof -
  let ?s1 = "s\<lparr>consecutiveFailures := 1, trace := trace s @ [Logged e1]\<rparr>"
  let ?s2 = "s\<lparr>consecutiveFailures := 2, trace := trace s @ [Logged e1, Logged e2]\<rparr>"
  let ?s3 = "s\<lparr>consecutiveFailures := 3, trace := trace s @ [Logged e1, Logged e2]\<rparr>"
  have xs: "\<forall>x\<in>set xs. filteredOut D cd x" and ys: "\<forall>x\<in>set ys. filteredOut D cd x"
    and zs: "\<forall>x\<in>set zs. filteredOut D cd x" and us: "\<forall>x\<in>set us. filteredOut D cd x"
    using skips by auto
  have first: "resume D cd s g (xs @ a # tl1) ps = resume D cd ?s1 g tl1 ps" for g tl1 ps
    using zero e1 by (simp add: resume_skip [OF xs] resume_failed [OF a])
  have second: "resume D cd ?s1 g (pre @ b # tl2) ps = resume D cd ?s2 g tl2 ps"
    if "\<forall>x\<in>set pre. filteredOut D cd x" for g pre tl2 ps
    using e2 by (simp add: resume_skip [OF that] resume_failed [OF b] numeral_2_eq_2)
  have third: "resume D cd ?s2 g (pre @ c # tl3) ps = (Threw e3, ?s3)"
    if "\<forall>x\<in>set pre. filteredOut D cd x" for g pre tl3 ps
    by (simp add: resume_skip [OF that] resume_failed [OF c])
  have reset: "materialization D cd it = Some (Inr url) \<longrightarrow>
                 consecutiveFailures (snd (loop_body D cd s' h' it)) = 0"
    by (simp add: loop_body_materialized)
  have start: "consecutiveFailures (initialState t0) = 0"
    by (simp add: initialState_def)
  have one_pass: "resume D cd s h (xs @ a # ys @ b # zs @ c # rest) passes = (Threw e3, ?s3)"
    by (simp only: first second [OF ys] third [OF zs])
  have two_one: "resume D cd s True (xs @ a # ys @ b # zs) (Inr (us @ c # rest) # passes)
                   = (Threw e3, ?s3)"
    by (simp only: first second [OF ys] resume_skip_all [OF zs] if_True while_true_resume
        third [OF us])
  have one_two: "resume D cd s True (xs @ a # ys) (Inr (zs @ b # us @ c # rest) # passes)
                   = (Threw e3, ?s3)"
    by (simp only: first resume_skip_all [OF ys] if_True while_true_resume
        second [OF zs] third [OF us])
  from reset start one_pass two_one one_two show ?thesis by blast
qed

theorem three_strikes_witness:
  "consecutiveFailures (snd (loop_body ex_deps ex_cast
       ((initialState 0)\<lparr>consecutiveFailures := 2\<rparr>) False
       (ex_photo (Inr (Some [2, 3])) ''blob:1'' 1000 1000))) = 0
   \<and> resume ex_deps ex_cast (initialState 0) False
       ([ex_video] @ ex_photo (Inl (Error ''network'')) ''blob:1'' 1000 1000
          # [] @ ex_photo (Inl (ApiError 500)) ''blob:2'' 2000 2000
          # [ex_video] @ ex_photo (Inl (Error ''timeout'')) ''blob:3'' 3000 3000
          # [ex_photo (Inr (Some [2, 3])) ''blob:4'' 4000 4000]) []
     = (Threw (Error ''timeout''),
        (initialState 0)\<lparr>consecutiveFailures := 3,
           trace := trace (initialState 0) @ [Logged (Error ''network''), Logged (ApiError 500)]\<rparr>)"
proof -
  have zero: "consecutiveFailures (initialState 0) = 0"
    by (simp add: initialState_def)
  have e1: "\<not> is401 (Error ''network'')" and e2: "\<not> is401 (ApiError 500)"
    by (simp_all add: is401_def)
  have skips: "\<forall>x \<in> set [ex_video] \<union> set [] \<union> set [ex_video] \<union> set []. filteredOut ex_deps ex_cast x"
    by (simp add: ex_video_filteredOut)
  from three_strikes [where D = ex_deps and cd = ex_cast and s = "initialState 0"
      and a = "ex_photo (Inl (Error ''network'')) ''blob:1'' 1000 1000"
      and b = "ex_photo (Inl (ApiError 500)) ''blob:2'' 2000 2000"
      and c = "ex_photo (Inl (Error ''timeout'')) ''blob:3'' 3000 3000"
      and ?e1.0 = "Error ''network''" and ?e2.0 = "ApiError 500" and ?e3.0 = "Error ''timeout''"
      and xs = "[ex_video]" and ys = "[]" and zs = "[ex_video]" and us = "[]"
      and it = "ex_photo (Inr (Some [2, 3])) ''blob:1'' 1000 1000" and url = "''blob:1''"
      and s' = "(initialState 0)\<lparr>consecutiveFailures := 2\<rparr>" and h' = False
      and h = False
      and rest = "[ex_photo (Inr (Some [2, 3])) ''blob:4'' 4000 4000]" and passes = "[]",
      OF zero ex_photo_fail e1 ex_photo_fail e2 ex_photo_fail skips]
    ex_photo_ok [of "''blob:1''" 1000 1000]
  show ?thesis by simp
qed

subsection \<open>The playback window\<close>

lemma yielded_append [simp]: "yielded (es @ es') = yielded es @ yielded es'"
  by (induction es rule: yielded.induct) simp_all

lemma revoked_append [simp]: "revoked (es @ es') = revoked es @ revoked es'"
  by (induction es rule: revoked.induct) simp_all

lemma window_ok_initialState: "window_ok (initialState t0)"
  by (simp add: window_ok_def initialState_def)

lemma dispose_full:
  "previousURLs s = [u1, u2] \<Longrightarrow>
   dispose url s = s\<lparr>previousURLs := [u2, url], trace := trace s @ [Revoked u1]\<rparr>"
  by (simp add: dispose_def Let_def)

lemma dispose_room:
  "length (previousURLs s) \<le> 1 \<Longrightarrow> dispose url s = s\<lparr>previousURLs := previousURLs s @ [url]\<rparr>"
  by (simp add: dispose_def Let_def)

lemma pace_trace:
  "trace (pace W url s) =
     trace s @ (case pacingWait (lastYieldTime s) (nowBeforeWait W) of
                  Some ms \<Rightarrow> [Waited ms] | None \<Rightarrow> []) @ [Yielded url]"
  by (simp add: pace_def Let_def split: option.splits)

lemma pace_previousURLs [simp]: "previousURLs (pace W url s) = previousURLs s"
  by (simp add: pace_def Let_def split: option.splits)

lemma window_ok_vend:
  assumes "window_ok s"
  shows "window_ok (pace W url (dispose url (s\<lparr>consecutiveFailures := 0\<rparr>)))"
proof (cases "length (previousURLs s) \<le> 1")
  case True
  with assms show ?thesis
    by (simp add: window_ok_def dispose_room pace_trace split: option.splits)
next
  case False
  with assms obtain u1 u2 where "previousURLs s = [u1, u2]"
    by (cases "previousURLs s"; cases "tl (previousURLs s)") (auto simp: window_ok_def)
  with assms show ?thesis
    by (simp add: window_ok_def dispose_full pace_trace split: option.splits)
qed

lemma window_ok_catch_block: "window_ok s \<Longrightarrow> window_ok (snd (catch_block e s h))"
  by (simp add: catch_block_def Let_def window_ok_def)

lemma window_ok_loop_body: "window_ok s \<Longrightarrow> window_ok (snd (loop_body D cd s h it))"
  by (simp add: loop_body_def window_ok_vend window_ok_catch_block split: sum.splits)

lemma window_ok_for_files: "window_ok s \<Longrightarrow> window_ok (snd (for_files D cd s h files))"
proof (induction files arbitrary: s h)
  case Nil
  then show ?case by simp
next
  case (Cons it rest)
  from Cons.prems have "window_ok (snd (loop_body D cd s h it))"
    by (rule window_ok_loop_body)
  then show ?case
    by (cases "loop_body D cd s h it") (auto simp add: Cons.IH split: sum.splits)
qed

lemma window_ok_while_true: "window_ok s \<Longrightarrow> window_ok (snd (while_true D cd s passes))"
proof (induction passes arbitrary: s)
  case Nil
  then show ?case by simp
next
  case (Cons p passes)
  show ?case
  proof (cases p)
    case (Inl e)
    with Cons.prems show ?thesis by simp
  next
    case (Inr files)
    from Cons.prems have "window_ok (snd (for_files D cd s False files))"
      by (rule window_ok_for_files)
    with Inr show ?thesis
      by (cases "for_files D cd s False files") (auto simp add: Cons.IH split: sum.splits)
  qed
qed

text \<open>
  C5. However many passes and files a run has gone through, its playback window holds
  at most two URLs, and they are exactly the yielded URLs not yet revoked. Since the run
  may be cut after any file, this is the state at every yield. When a file is
  materialized while the window holds two URLs, the older is revoked before the new URL
  is pushed and yielded; while it holds at most one, the new URL is pushed and nothing
  is revoked.
\<close>

theorem playback_window_bounded:
  "length (previousURLs (snd (imageURLGenerator D cd t0 passes))) \<le> 2
   \<and> yielded (trace (snd (imageURLGenerator D cd t0 passes)))
       = revoked (trace (snd (imageURLGenerator D cd t0 passes)))
           @ previousURLs (snd (imageURLGenerator D cd t0 passes))
   \<and> (materialization D cd it = Some (Inr url) \<and> previousURLs s = [u1, u2] \<longrightarrow>
        previousURLs (snd (loop_body D cd s h it)) = [u2, url]
        \<and> trace (snd (loop_body D cd s h it))
            = trace s @ Revoked u1
                # (case pacingWait (lastYieldTime s) (nowBeforeWait (env it)) of
                     Some ms \<Rightarrow> [Waited ms] | None \<Rightarrow> [])
                @ [Yielded url])
   \<and> (materialization D cd it = Some (Inr url) \<and> length (previousURLs s) \<le> 1 \<longrightarrow>
        previousURLs (snd (loop_body D cd s h it)) = previousURLs s @ [url]
        \<and> revoked (trace (snd (loop_body D cd s h it))) = revoked (trace s))"
proof -
  have "window_ok (snd (imageURLGenerator D cd t0 passes))"
    unfolding imageURLGenerator_def
    by (rule window_ok_while_true [OF window_ok_initialState])
  moreover have "previousURLs (snd (loop_body D cd s h it)) = [u2, url]
        \<and> trace (snd (loop_body D cd s h it))
            = trace s @ Revoked u1
                # (case pacingWait (lastYieldTime s) (nowBeforeWait (env it)) of
                     Some ms \<Rightarrow> [Waited ms] | None \<Rightarrow> [])
                @ [Yielded url]"
    if "materialization D cd it = Some (Inr url)" "previousURLs s = [u1, u2]"
    using that by (simp add: loop_body_materialized dispose_full pace_trace)
  moreover have "previousURLs (snd (loop_body D cd s h it)) = previousURLs s @ [url]
        \<and> revoked (trace (snd (loop_body D cd s h it))) = revoked (trace s)"
    if "materialization D cd it = Some (Inr url)" "length (previousURLs s) \<le> 1"
    using that
    by (simp add: loop_body_materialized dispose_room pace_trace split: option.splits)
  ultimately show ?thesis
    unfolding window_ok_def by blast
qed

theorem playback_window_bounded_witness:
  "previousURLs (snd (imageURLGenerator ex_deps ex_cast 0
       [Inr [ex_photo (Inr (Some [2, 3])) ''blob:1'' 1000 1000,
             ex_photo (Inr (Some [2, 3])) ''blob:2'' 13000 13000]])) = [''blob:1'', ''blob:2'']
   \<and> previousURLs (snd (loop_body ex_deps ex_cast
         (snd (imageURLGenerator ex_deps ex_cast 0
           [Inr [ex_photo (Inr (Some [2, 3])) ''blob:1'' 1000 1000,
                 ex_photo (Inr (Some [2, 3])) ''blob:2'' 13000 13000]]))
         True (ex_photo (Inr (Some [2, 3])) ''blob:3'' 25000 25000)))
       = [''blob:2'', ''blob:3'']
   \<and> revoked (trace (snd (loop_body ex_deps ex_cast
         (snd (imageURLGenerator ex_deps ex_cast 0
           [Inr [ex_photo (Inr (Some [2, 3])) ''blob:1'' 1000 1000,
                 ex_photo (Inr (Some [2, 3])) ''blob:2'' 13000 13000]]))
         True (ex_photo (Inr (Some [2, 3])) ''blob:3'' 25000 25000)))) = [''blob:1'']
   \<and> previousURLs (snd (loop_body ex_deps ex_cast (initialState 0) False
         (ex_photo (Inr (Some [2, 3])) ''blob:1'' 1000 1000))) = [''blob:1'']"
proof -
  let ?p1 = "ex_photo (Inr (Some [2, 3])) ''blob:1'' 1000 1000"
  let ?p2 = "ex_photo (Inr (Some [2, 3])) ''blob:2'' 13000 13000"
  let ?p3 = "ex_photo (Inr (Some [2, 3])) ''blob:3'' 25000 25000"
  let ?s = "snd (imageURLGenerator ex_deps ex_cast 0 [Inr [?p1, ?p2]])"
  have two: "previousURLs ?s = [''blob:1'', ''blob:2'']"
    by (simp add: ex_run)
  have one: "length (previousURLs (initialState 0)) \<le> 1"
    by (simp add: initialState_def)
  from ex_photo_ok [of "''blob:3''" 25000 25000] two
  have "materialization ex_deps ex_cast ?p3 = Some (Inr ''blob:3'')
          \<and> previousURLs ?s = [''blob:1'', ''blob:2'']" by simp
  then have full: "previousURLs (snd (loop_body ex_deps ex_cast ?s True ?p3)) = [''blob:2'', ''blob:3'']
      \<and> trace (snd (loop_body ex_deps ex_cast ?s True ?p3))
          = trace ?s @ Revoked ''blob:1''
              # (case pacingWait (lastYieldTime ?s) (nowBeforeWait (env ?p3)) of
                   Some ms \<Rightarrow> [Waited ms] | None \<Rightarrow> [])
              @ [Yielded ''blob:3'']"
    by (rule playback_window_bounded [where D = ex_deps and cd = ex_cast and it = ?p3
          and url = "''blob:3''" and s = ?s and ?u1.0 = "''blob:1''" and ?u2.0 = "''blob:2''"
          and h = True, THEN conjunct2, THEN conjunct2, THEN conjunct1, THEN mp])
  have before: "revoked (trace ?s) = []"
    by (simp add: ex_run)
  from full before
  have rev: "revoked (trace (snd (loop_body ex_deps ex_cast ?s True ?p3))) = [''blob:1'']"
    by (simp split: option.splits)
  from ex_photo_ok [of "''blob:1''" 1000 1000] one
  have "materialization ex_deps ex_cast ?p1 = Some (Inr ''blob:1'')
          \<and> length (previousURLs (initialState 0)) \<le> 1" by simp
  then have "previousURLs (snd (loop_body ex_deps ex_cast (initialState 0) False ?p1))
          = previousURLs (initialState 0) @ [''blob:1'']
        \<and> revoked (trace (snd (loop_body ex_deps ex_cast (initialState 0) False ?p1)))
          = revoked (trace (initialState 0))"
    by (rule playback_window_bounded [where D = ex_deps and cd = ex_cast and it = ?p1
          and url = "''blob:1''" and s = "initialState 0" and h = False,
          THEN conjunct2, THEN conjunct2, THEN conjunct2, THEN mp])
  with two full rev show ?thesis
    by (simp add: initialState_def)
qed

subsection \<open>The end of the sequence\<close>

lemma catch_block_trace:
  "catch_block e s h = (r, s') \<Longrightarrow>
   \<exists>es. trace s' = trace s @ es \<and> yielded es = [] \<and> (\<forall>h'. r = Inr h' \<longrightarrow> h' = h)"
  by (auto simp add: catch_block_def Let_def split: if_splits)

lemma vend_trace:
  "\<exists>es. trace (pace W url (dispose url s)) = trace s @ es \<and> yielded es = [url]"
  by (simp add: pace_trace dispose_def Let_def split: option.splits)

lemma loop_body_trace:
  assumes "loop_body D cd s h it = (r, s')"
  shows "\<exists>es. trace s' = trace s @ es \<and> (\<forall>h'. r = Inr h' \<longrightarrow> h' = (h \<or> yielded es \<noteq> []))"
proof (cases "decryptEnteFile D (encryptedFile it) (collectionKey cd)")
  case (Inl e)
  with assms show ?thesis by (auto simp add: loop_body_def)
next
  case (Inr f)
  show ?thesis
  proof (cases "isFileEligible D f")
    case False
    with Inr assms show ?thesis by (auto simp add: loop_body_def)
  next
    case True
    show ?thesis
    proof (cases "createRenderableURL D (env it) (castToken cd) f")
      case (Inl e)
      with Inr True assms have "catch_block e s h = (r, s')"
        by (simp add: loop_body_def)
      from catch_block_trace [OF this] show ?thesis by auto
    next
      case url: (Inr url)
      with Inr True assms
      have r: "r = Inr True"
        and s': "s' = pace (env it) url (dispose url (s\<lparr>consecutiveFailures := 0\<rparr>))"
        by (simp_all add: loop_body_def)
      from vend_trace [of "env it" url "s\<lparr>consecutiveFailures := 0\<rparr>"]
      obtain es where "trace s' = trace s @ es" "yielded es = [url]"
        unfolding s' by auto
      with r show ?thesis by auto
    qed
  qed
qed

lemma for_files_trace:
  "for_files D cd s h files = (r, s') \<Longrightarrow>
   \<exists>es. trace s' = trace s @ es \<and> (\<forall>h'. r = Inr h' \<longrightarrow> h' = (h \<or> yielded es \<noteq> []))"
proof (induction files arbitrary: s h)
  case Nil
  then show ?case by auto
next
  case (Cons it rest)
  obtain r1 s1 where body: "loop_body D cd s h it = (r1, s1)"
    by (cases "loop_body D cd s h it") auto
  from loop_body_trace [OF body] obtain es1 where
    es1: "trace s1 = trace s @ es1" "\<forall>h'. r1 = Inr h' \<longrightarrow> h' = (h \<or> yielded es1 \<noteq> [])"
    by auto
  show ?case
  proof (cases r1)
    case (Inl e)
    with body Cons.prems es1 show ?thesis by auto
  next
    case (Inr h1)
    with body Cons.prems have "for_files D cd s1 h1 rest = (r, s')" by simp
    from Cons.IH [OF this] obtain es2 where
      es2: "trace s' = trace s1 @ es2" "\<forall>h'. r = Inr h' \<longrightarrow> h' = (h1 \<or> yielded es2 \<noteq> [])"
      by auto
    from es1 es2 Inr have "trace s' = trace s @ (es1 @ es2)"
      and "\<forall>h'. r = Inr h' \<longrightarrow> h' = (h \<or> yielded (es1 @ es2) \<noteq> [])"
      by auto
    then show ?thesis by blast
  qed
qed

lemma for_files_no_yield:
  "for_files D cd s False files = (Inr r, s') \<Longrightarrow>
   (\<not> r) = (yielded (trace s') = yielded (trace s))"
  using for_files_trace [of D cd s False files "Inr r" s'] by auto

lemma while_true_Cons_Inr:
  "for_files D cd s False files = (r, s1) \<Longrightarrow>
   while_true D cd s (Inr files # passes) =
     (case r of Inl e \<Rightarrow> (Threw e, s1)
      | Inr h \<Rightarrow> if h then while_true D cd s1 passes else (Done, s1))"
  by (simp split: sum.splits)

lemma while_true_append_Running:
  "while_true D cd s pre = (Running, sk) \<Longrightarrow>
   while_true D cd s (pre @ post) = while_true D cd sk post"
proof (induction pre arbitrary: s)
  case Nil
  then show ?case by simp
next
  case (Cons p pre)
  show ?case
  proof (cases p)
    case (Inl e)
    with Cons.prems show ?thesis by simp
  next
    case (Inr files)
    obtain r s1 where pass: "for_files D cd s False files = (r, s1)"
      by (cases "for_files D cd s False files") auto
    note step = while_true_Cons_Inr [OF pass]
    from Cons.prems have run: "while_true D cd s (Inr files # pre) = (Running, sk)"
      unfolding Inr .
    show ?thesis
    proof (cases r)
      case (Inl e)
      with run [unfolded step] show ?thesis by simp
    next
      case flag: (Inr h)
      show ?thesis
      proof (cases h)
        case False
        with run [unfolded step] flag show ?thesis by simp
      next
        case True
        with run [unfolded step] flag have "while_true D cd s1 pre = (Running, sk)"
          by simp
        from Cons.IH [OF this] have "while_true D cd s1 (pre @ post) = while_true D cd sk post" .
        moreover have "while_true D cd s ((p # pre) @ post) = while_true D cd s1 (pre @ post)"
          unfolding Inr append_Cons step using flag True by simp
        ultimately show ?thesis by simp
      qed
    qed
  qed
qed

lemma while_true_Done_split:
  "while_true D cd s passes = (Done, sf) \<Longrightarrow>
   \<exists>pre files post sk. passes = pre @ Inr files # post
      \<and> while_true D cd s pre = (Running, sk)
      \<and> for_files D cd sk False files = (Inr False, sf)"
proof (induction passes arbitrary: s)
  case Nil
  then show ?case by simp
next
  case (Cons p passes)
  show ?case
  proof (cases p)
    case (Inl e)
    with Cons.prems show ?thesis by simp
  next
    case (Inr files)
    obtain r s1 where pass: "for_files D cd s False files = (r, s1)"
      by (cases "for_files D cd s False files") auto
    note step = while_true_Cons_Inr [OF pass]
    from Cons.prems have run: "while_true D cd s (Inr files # passes) = (Done, sf)"
      unfolding Inr .
    show ?thesis
    proof (cases r)
      case (Inl e)
      with run [unfolded step] show ?thesis by simp
    next
      case flag: (Inr h)
      show ?thesis
      proof (cases h)
        case False
        with run [unfolded step] flag have "sf = s1" by simp
        with pass flag False Inr
        have "p # passes = [] @ Inr files # passes \<and> while_true D cd s [] = (Running, s)
                \<and> for_files D cd s False files = (Inr False, sf)"
          by simp
        then show ?thesis by blast
      next
        case True
        with run [unfolded step] flag have "while_true D cd s1 passes = (Done, sf)"
          by simp
        from Cons.IH [OF this] obtain pre files' post sk where
          split: "passes = pre @ Inr files' # post"
          and pre: "while_true D cd s1 pre = (Running, sk)"
          and last: "for_files D cd sk False files' = (Inr False, sf)"
          by blast
        have "while_true D cd s (Inr files # pre) = while_true D cd s1 pre"
          unfolding step using flag True by simp
        with pre have "while_true D cd s (Inr files # pre) = (Running, sk)"
          by simp
        with split last Inr
        have "p # passes = (Inr files # pre) @ Inr files' # post
                \<and> while_true D cd s (Inr files # pre) = (Running, sk)
                \<and> for_files D cd sk False files' = (Inr False, sf)"
          by simp
        then show ?thesis by blast
      qed
    qed
  qed
qed

lemma while_true_Done:
  "(while_true D cd s passes = (Done, sf)) =
   (\<exists>pre files post sk. passes = pre @ Inr files # post
      \<and> while_true D cd s pre = (Running, sk)
      \<and> for_files D cd sk False files = (Inr False, sf))"
proof
  assume "while_true D cd s passes = (Done, sf)"
  then show "\<exists>pre files post sk. passes = pre @ Inr files # post
      \<and> while_true D cd s pre = (Running, sk)
      \<and> for_files D cd sk False files = (Inr False, sf)"
    by (rule while_true_Done_split)
next
  assume "\<exists>pre files post sk. passes = pre @ Inr files # post
      \<and> while_true D cd s pre = (Running, sk)
      \<and> for_files D cd sk False files = (Inr False, sf)"
  then obtain pre files post sk where
    split: "passes = pre @ Inr files # post"
    and pre: "while_true D cd s pre = (Running, sk)"
    and last: "for_files D cd sk False files = (Inr False, sf)"
    by blast
  show "while_true D cd s passes = (Done, sf)"
    unfolding split while_true_append_Running [OF pre] while_true_Cons_Inr [OF last]
    by simp
qed

lemma for_files_success_flag:
  "\<exists>it\<in>set files. \<exists>url. materialization D cd it = Some (Inr url) \<Longrightarrow>
   for_files D cd s h files = (Inr r, s') \<Longrightarrow> r"
proof (induction files arbitrary: s h)
  case Nil
  then show ?case by simp
next
  case (Cons it rest)
  obtain r1 s1 where body: "loop_body D cd s h it = (r1, s1)"
    by (cases "loop_body D cd s h it") auto
  show ?case
  proof (cases r1)
    case (Inl e)
    with body Cons.prems(2) show ?thesis by simp
  next
    case (Inr h1)
    with body Cons.prems(2) have rest: "for_files D cd s1 h1 rest = (Inr r, s')"
      by simp
    show ?thesis
    proof (cases "\<exists>url. materialization D cd it = Some (Inr url)")
      case True
      then obtain url where "materialization D cd it = Some (Inr url)" by blast
      from loop_body_materialized [OF this, of s h] body Inr have "h1" by simp
      with for_files_trace [OF rest] show ?thesis by simp
    next
      case False
      with Cons.prems(1)
      have "\<exists>it\<in>set rest. \<exists>url. materialization D cd it = Some (Inr url)" by auto
      from Cons.IH [OF this rest] show ?thesis .
    qed
  qed
qed

lemma while_true_never_Done:
  assumes "\<forall>p\<in>set passes. \<forall>files. p = Inr files \<longrightarrow>
             (\<exists>it\<in>set files. \<exists>url. materialization D cd it = Some (Inr url))"
  shows "fst (while_true D cd s passes) \<noteq> Done"
proof
  assume "fst (while_true D cd s passes) = Done"
  then obtain sf where "while_true D cd s passes = (Done, sf)"
    by (cases "while_true D cd s passes") auto
  from while_true_Done_split [OF this] obtain pre files post sk where
    split: "passes = pre @ Inr files # post"
    and last: "for_files D cd sk False files = (Inr False, sf)"
    by blast
  from split assms
  have "\<exists>it\<in>set files. \<exists>url. materialization D cd it = Some (Inr url)" by auto
  from for_files_success_flag [OF this last] show False .
qed

lemma for_files_all_ok:
  "\<forall>it\<in>set files. filteredOut D cd it \<or> (\<exists>url. materialization D cd it = Some (Inr url))
   \<Longrightarrow> \<exists>r s'. for_files D cd s h files = (Inr r, s')"
proof (induction files arbitrary: s h)
  case Nil
  then show ?case by simp
next
  case (Cons it rest)
  from Cons.prems
  have rest: "\<forall>it\<in>set rest. filteredOut D cd it
                \<or> (\<exists>url. materialization D cd it = Some (Inr url))"
    and it: "filteredOut D cd it \<or> (\<exists>url. materialization D cd it = Some (Inr url))"
    by auto
  from it obtain h1 s1 where "loop_body D cd s h it = (Inr h1, s1)"
    by (auto simp add: loop_body_filteredOut loop_body_materialized)
  with Cons.IH [OF rest, of s1 h1] show ?case by simp
qed

lemma while_true_all_ok:
  assumes "\<forall>p\<in>set passes. \<exists>files. p = Inr files
             \<and> (\<forall>it\<in>set files. filteredOut D cd it
                   \<or> (\<exists>url. materialization D cd it = Some (Inr url)))
             \<and> (\<exists>it\<in>set files. \<exists>url. materialization D cd it = Some (Inr url))"
  shows "fst (while_true D cd s passes) = Running
         \<and> length (yielded (trace s)) + length passes
             \<le> length (yielded (trace (snd (while_true D cd s passes))))"
  using assms
proof (induction passes arbitrary: s)
  case Nil
  then show ?case by simp
next
  case (Cons p passes)
  from Cons.prems obtain files where p: "p = Inr files"
    and ok: "\<forall>it\<in>set files. filteredOut D cd it
               \<or> (\<exists>url. materialization D cd it = Some (Inr url))"
    and some: "\<exists>it\<in>set files. \<exists>url. materialization D cd it = Some (Inr url)"
    by auto
  from for_files_all_ok [OF ok] obtain r s1 where
    pass: "for_files D cd s False files = (Inr r, s1)" by blast
  from for_files_success_flag [OF some pass] have r: "r" .
  from for_files_trace [OF pass] r obtain es where
    "trace s1 = trace s @ es" "yielded es \<noteq> []" by auto
  then have grow: "length (yielded (trace s)) + 1 \<le> length (yielded (trace s1))"
    by (cases "yielded es") simp_all
  from Cons.prems have "\<forall>p\<in>set passes. \<exists>files. p = Inr files
             \<and> (\<forall>it\<in>set files. filteredOut D cd it
                   \<or> (\<exists>url. materialization D cd it = Some (Inr url)))
             \<and> (\<exists>it\<in>set files. \<exists>url. materialization D cd it = Some (Inr url))"
    by simp
  from Cons.IH [OF this, of s1]
  have "fst (while_true D cd s1 passes) = Running"
    and "length (yielded (trace s1)) + length passes
           \<le> length (yielded (trace (snd (while_true D cd s1 passes))))"
    by simp_all
  moreover have "while_true D cd s (p # passes) = while_true D cd s1 passes"
    unfolding p while_true_Cons_Inr [OF pass] using r by simp
  ultimately show ?case using grow by simp
qed

lemma while_true_success_passes:
  assumes "\<forall>p\<in>set passes. \<forall>files. p = Inr files \<longrightarrow>
             (\<exists>it\<in>set files. \<exists>url. materialization D cd it = Some (Inr url))"
  shows "(\<exists>e. fst (while_true D cd s passes) = Threw e)
         \<or> (fst (while_true D cd s passes) = Running
             \<and> length (yielded (trace s)) + length passes
                 \<le> length (yielded (trace (snd (while_true D cd s passes)))))"
  using assms
proof (induction passes arbitrary: s)
  case Nil
  then show ?case by simp
next
  case (Cons p passes)
  show ?case
  proof (cases p)
    case (Inl e)
    then show ?thesis by simp
  next
    case (Inr files)
    obtain r s1 where pass: "for_files D cd s False files = (r, s1)"
      by (cases "for_files D cd s False files") auto
    note step = while_true_Cons_Inr [OF pass]
    show ?thesis
    proof (cases r)
      case (Inl e)
      then show ?thesis unfolding Inr step by simp
    next
      case flag: (Inr h)
      from Cons.prems Inr
      have some: "\<exists>it\<in>set files. \<exists>url. materialization D cd it = Some (Inr url)"
        by simp
      from pass flag have pass': "for_files D cd s False files = (Inr h, s1)" by simp
      from for_files_success_flag [OF some pass'] have h: "h" .
      from for_files_trace [OF pass'] h obtain es where
        "trace s1 = trace s @ es" "yielded es \<noteq> []" by auto
      then have grow: "length (yielded (trace s)) + 1 \<le> length (yielded (trace s1))"
        by (cases "yielded es") simp_all
      from Cons.prems have "\<forall>p\<in>set passes. \<forall>files. p = Inr files \<longrightarrow>
             (\<exists>it\<in>set files. \<exists>url. materialization D cd it = Some (Inr url))"
        by simp
      from Cons.IH [OF this, of s1]
      have rest: "(\<exists>e. fst (while_true D cd s1 passes) = Threw e)
         \<or> (fst (while_true D cd s1 passes) = Running
             \<and> length (yielded (trace s1)) + length passes
                 \<le> length (yielded (trace (snd (while_true D cd s1 passes)))))" .
      have "while_true D cd s (p # passes) = while_true D cd s1 passes"
        unfolding Inr step using flag h by simp
      with rest grow show ?thesis by auto
    qed
  qed
qed

text \<open>
  C4, as the code has it. The generator returns exactly when some pass, reached with
  the generator still running after the passes before it, runs to its end without a
  throw and yields nothing: \<open>haveEligibleFiles\<close> is set by a materialized file only, so a
  pass whose eligible files all fail ends the sequence too, and a pass cut short by a
  throw does not. When every pass has a file that is materialized, the generator never
  returns: after any number of passes it has either been ended by a thrown error or is
  still running, with at least one yield for each pass. When moreover no file fails, no
  error is thrown and it is still running.
\<close>

theorem done_iff_empty_pass:
  "((fst (imageURLGenerator D cd t0 passes) = Done) =
      (\<exists>pre files post sk r sf. passes = pre @ Inr files # post
         \<and> imageURLGenerator D cd t0 pre = (Running, sk)
         \<and> for_files D cd sk False files = (Inr r, sf)
         \<and> yielded (trace sf) = yielded (trace sk)))
   \<and> ((\<forall>p\<in>set passes. \<forall>files. p = Inr files \<longrightarrow>
          (\<exists>it\<in>set files. \<exists>url. materialization D cd it = Some (Inr url)))
        \<longrightarrow> fst (imageURLGenerator D cd t0 passes) \<noteq> Done
            \<and> ((\<exists>e. fst (imageURLGenerator D cd t0 passes) = Threw e)
                \<or> (fst (imageURLGenerator D cd t0 passes) = Running
                    \<and> length passes
                        \<le> length (yielded (trace (snd (imageURLGenerator D cd t0 passes)))))))
   \<and> ((\<forall>p\<in>set passes. \<exists>files. p = Inr files
          \<and> (\<forall>it\<in>set files. filteredOut D cd it
                \<or> (\<exists>url. materialization D cd it = Some (Inr url)))
          \<and> (\<exists>it\<in>set files. \<exists>url. materialization D cd it = Some (Inr url)))
        \<longrightarrow> fst (imageURLGenerator D cd t0 passes) = Running
            \<and> length passes \<le> length (yielded (trace (snd (imageURLGenerator D cd t0 passes)))))"
proof -
  let ?s0 = "initialState t0"
  have iff: "(fst (while_true D cd ?s0 passes) = Done) =
      (\<exists>pre files post sk r sf. passes = pre @ Inr files # post
         \<and> while_true D cd ?s0 pre = (Running, sk)
         \<and> for_files D cd sk False files = (Inr r, sf)
         \<and> yielded (trace sf) = yielded (trace sk))"
  proof
    assume "fst (while_true D cd ?s0 passes) = Done"
    then obtain sf where "while_true D cd ?s0 passes = (Done, sf)"
      by (cases "while_true D cd ?s0 passes") auto
    from while_true_Done_split [OF this] obtain pre files post sk where
      "passes = pre @ Inr files # post" "while_true D cd ?s0 pre = (Running, sk)"
      and last: "for_files D cd sk False files = (Inr False, sf)"
      by blast
    moreover from for_files_no_yield [OF last]
    have "yielded (trace sf) = yielded (trace sk)" by simp
    ultimately show "\<exists>pre files post sk r sf. passes = pre @ Inr files # post
         \<and> while_true D cd ?s0 pre = (Running, sk)
         \<and> for_files D cd sk False files = (Inr r, sf)
         \<and> yielded (trace sf) = yielded (trace sk)"
      by blast
  next
    assume "\<exists>pre files post sk r sf. passes = pre @ Inr files # post
         \<and> while_true D cd ?s0 pre = (Running, sk)
         \<and> for_files D cd sk False files = (Inr r, sf)
         \<and> yielded (trace sf) = yielded (trace sk)"
    then obtain pre files post sk r sf where
      split: "passes = pre @ Inr files # post"
      and pre: "while_true D cd ?s0 pre = (Running, sk)"
      and last: "for_files D cd sk False files = (Inr r, sf)"
      and none: "yielded (trace sf) = yielded (trace sk)"
      by blast
    from for_files_no_yield [OF last] none have "\<not> r" by simp
    with last have "for_files D cd sk False files = (Inr False, sf)" by simp
    with split pre have "while_true D cd ?s0 passes = (Done, sf)"
      unfolding while_true_Done by blast
    then show "fst (while_true D cd ?s0 passes) = Done" by simp
  qed
  have never: "fst (while_true D cd ?s0 passes) \<noteq> Done
            \<and> ((\<exists>e. fst (while_true D cd ?s0 passes) = Threw e)
                \<or> (fst (while_true D cd ?s0 passes) = Running
                    \<and> length passes
                        \<le> length (yielded (trace (snd (while_true D cd ?s0 passes))))))"
    if "\<forall>p\<in>set passes. \<forall>files. p = Inr files \<longrightarrow>
          (\<exists>it\<in>set files. \<exists>url. materialization D cd it = Some (Inr url))"
    using while_true_never_Done [OF that, of ?s0] while_true_success_passes [OF that, of ?s0]
    by (simp add: initialState_def)
  have forever: "fst (while_true D cd ?s0 passes) = Running
            \<and> length passes \<le> length (yielded (trace (snd (while_true D cd ?s0 passes))))"
    if "\<forall>p\<in>set passes. \<exists>files. p = Inr files
          \<and> (\<forall>it\<in>set files. filteredOut D cd it
                \<or> (\<exists>url. materialization D cd it = Some (Inr url)))
          \<and> (\<exists>it\<in>set files. \<exists>url. materialization D cd it = Some (Inr url))"
    using while_true_all_ok [OF that, of ?s0] by (simp add: initialState_def)
  from iff never forever show ?thesis
    unfolding imageURLGenerator_def by blast
qed

theorem done_iff_empty_pass_witness:
  "fst (imageURLGenerator ex_deps ex_cast 0
          [Inr [ex_photo (Inr (Some [2, 3])) ''blob:1'' 1000 1000], Inr [ex_video]]) = Done
   \<and> fst (imageURLGenerator ex_deps ex_cast 0
          [Inr [ex_photo (Inr (Some [2, 3])) ''blob:1'' 1000 1000],
           Inr [ex_video, ex_photo (Inr (Some [2, 3])) ''blob:2'' 13000 13000]]) = Running
   \<and> 2 \<le> length (yielded (trace (snd (imageURLGenerator ex_deps ex_cast 0
          [Inr [ex_photo (Inr (Some [2, 3])) ''blob:1'' 1000 1000],
           Inr [ex_video, ex_photo (Inr (Some [2, 3])) ''blob:2'' 13000 13000]]))))
   \<and> fst (imageURLGenerator ex_deps ex_cast 0
          [Inr [ex_photo (Inr (Some [2, 3])) ''blob:1'' 1000 1000,
                ex_photo (Inl (Error ''network'')) ''blob:x'' 2000 2000],
           Inr [ex_photo (Inr (Some [2, 3])) ''blob:2'' 13000 13000]]) = Running
   \<and> 2 \<le> length (yielded (trace (snd (imageURLGenerator ex_deps ex_cast 0
          [Inr [ex_photo (Inr (Some [2, 3])) ''blob:1'' 1000 1000,
                ex_photo (Inl (Error ''network'')) ''blob:x'' 2000 2000],
           Inr [ex_photo (Inr (Some [2, 3])) ''blob:2'' 13000 13000]]))))"
proof -
  let ?p1 = "ex_photo (Inr (Some [2, 3])) ''blob:1'' 1000 1000"
  let ?p2 = "ex_photo (Inr (Some [2, 3])) ''blob:2'' 13000 13000"
  let ?f = "ex_photo (Inl (Error ''network'')) ''blob:x'' 2000 2000"
  let ?sk = "snd (imageURLGenerator ex_deps ex_cast 0 [Inr [?p1]])"
  have run: "imageURLGenerator ex_deps ex_cast 0 [Inr [?p1]] = (Running, ?sk)"
    by (simp add: ex_run)
  have last: "for_files ex_deps ex_cast ?sk False [ex_video] = (Inr False, ?sk)"
    by (simp add: loop_body_filteredOut [OF ex_video_filteredOut])
  from run last
  have "[Inr [?p1], Inr [ex_video]] = [Inr [?p1]] @ Inr [ex_video] # []
          \<and> imageURLGenerator ex_deps ex_cast 0 [Inr [?p1]] = (Running, ?sk)
          \<and> for_files ex_deps ex_cast ?sk False [ex_video] = (Inr False, ?sk)
          \<and> yielded (trace ?sk) = yielded (trace ?sk)"
    by simp
  then have "\<exists>pre files post sk r sf. [Inr [?p1], Inr [ex_video]] = pre @ Inr files # post
         \<and> imageURLGenerator ex_deps ex_cast 0 pre = (Running, sk)
         \<and> for_files ex_deps ex_cast sk False files = (Inr r, sf)
         \<and> yielded (trace sf) = yielded (trace sk)"
    by blast
  then have fin: "fst (imageURLGenerator ex_deps ex_cast 0 [Inr [?p1], Inr [ex_video]]) = Done"
    by (rule done_iff_empty_pass [where D = ex_deps and cd = ex_cast and ?t0.0 = 0
          and passes = "[Inr [?p1], Inr [ex_video]]", THEN conjunct1, THEN iffD2])
  have ok: "\<forall>p\<in>set [Inr [?p1] :: exn + item list, Inr [ex_video, ?p2]].
          \<exists>files. p = Inr files
          \<and> (\<forall>it\<in>set files. filteredOut ex_deps ex_cast it
                \<or> (\<exists>url. materialization ex_deps ex_cast it = Some (Inr url)))
          \<and> (\<exists>it\<in>set files. \<exists>url. materialization ex_deps ex_cast it = Some (Inr url))"
    by (simp add: ex_photo_ok ex_video_filteredOut)
  then have smooth: "fst (imageURLGenerator ex_deps ex_cast 0 [Inr [?p1], Inr [ex_video, ?p2]])
        = Running
      \<and> length [Inr [?p1] :: exn + item list, Inr [ex_video, ?p2]]
          \<le> length (yielded (trace (snd (imageURLGenerator ex_deps ex_cast 0
                [Inr [?p1], Inr [ex_video, ?p2]]))))"
    by (rule done_iff_empty_pass [where D = ex_deps and cd = ex_cast and ?t0.0 = 0
          and passes = "[Inr [?p1], Inr [ex_video, ?p2]]",
          THEN conjunct2, THEN conjunct2, THEN mp])
  have some: "\<forall>p\<in>set [Inr [?p1, ?f] :: exn + item list, Inr [?p2]]. \<forall>files. p = Inr files \<longrightarrow>
          (\<exists>it\<in>set files. \<exists>url. materialization ex_deps ex_cast it = Some (Inr url))"
    by (simp add: ex_photo_ok)
  have going: "fst (imageURLGenerator ex_deps ex_cast 0 [Inr [?p1, ?f], Inr [?p2]]) = Running"
    by (simp add: ex_run)
  from some
  have "fst (imageURLGenerator ex_deps ex_cast 0 [Inr [?p1, ?f], Inr [?p2]]) \<noteq> Done
      \<and> ((\<exists>e. fst (imageURLGenerator ex_deps ex_cast 0 [Inr [?p1, ?f], Inr [?p2]]) = Threw e)
          \<or> (fst (imageURLGenerator ex_deps ex_cast 0 [Inr [?p1, ?f], Inr [?p2]]) = Running
              \<and> length [Inr [?p1, ?f] :: exn + item list, Inr [?p2]]
                  \<le> length (yielded (trace (snd (imageURLGenerator ex_deps ex_cast 0
                        [Inr [?p1, ?f], Inr [?p2]]))))))"
    by (rule done_iff_empty_pass [where D = ex_deps and cd = ex_cast and ?t0.0 = 0
          and passes = "[Inr [?p1, ?f], Inr [?p2]]",
          THEN conjunct2, THEN conjunct1, THEN mp])
  with going
  have rough: "length [Inr [?p1, ?f] :: exn + item list, Inr [?p2]]
                  \<le> length (yielded (trace (snd (imageURLGenerator ex_deps ex_cast 0
                        [Inr [?p1, ?f], Inr [?p2]]))))"
    by simp
  from fin smooth going rough show ?thesis by simp
qed

text \<open>
  C4 as stated fails. A pass with a success followed by three failures meets the
  claim's hypothesis, and the loop does not repeat: the third failure is thrown. A pass
  whose one file passes the filter and fails once ends the sequence, although the pass
  has an eligible file. And a pass that yields nothing because its file fails with 401
  ends in that error, not in a return.
\<close>

theorem done_iff_empty_pass_counterexample:
  "materialization ex_deps ex_cast (ex_photo (Inr (Some [2, 3])) ''blob:1'' 1000 1000)
     = Some (Inr ''blob:1'')
   \<and> fst (imageURLGenerator ex_deps ex_cast 0
        [Inr [ex_photo (Inr (Some [2, 3])) ''blob:1'' 1000 1000,
              ex_photo (Inl (Error ''e1'')) ''blob:2'' 2000 2000,
              ex_photo (Inl (Error ''e2'')) ''blob:3'' 3000 3000,
              ex_photo (Inl (Error ''e3'')) ''blob:4'' 4000 4000],
         Inr [ex_photo (Inr (Some [2, 3])) ''blob:5'' 5000 5000]]) = Threw (Error ''e3'')
   \<and> filteredOut ex_deps ex_cast (ex_photo (Inl (Error ''e1'')) ''blob:1'' 1000 1000) = False
   \<and> fst (imageURLGenerator ex_deps ex_cast 0
        [Inr [ex_photo (Inl (Error ''e1'')) ''blob:1'' 1000 1000],
         Inr [ex_photo (Inr (Some [2, 3])) ''blob:2'' 2000 2000]]) = Done
   \<and> yielded (trace (snd (imageURLGenerator ex_deps ex_cast 0
        [Inr [ex_photo (Inl (ApiError 401)) ''blob:1'' 1000 1000]]))) = []
   \<and> fst (imageURLGenerator ex_deps ex_cast 0
        [Inr [ex_photo (Inl (ApiError 401)) ''blob:1'' 1000 1000]]) = Threw (ApiError 401)"
proof -
  have "filteredOut ex_deps ex_cast (ex_photo (Inl (Error ''e1'')) ''blob:1'' 1000 1000) = False"
    by (simp add: filteredOut_def ex_photo_def ex_item_def ex_cast_def ex_decrypt_photo
        ex_eligible_photo)
  then show ?thesis
    by (simp add: ex_run ex_photo_ok)
qed

subsection \<open>Pacing\<close>

lemma first_wait_append:
  "first_wait (es @ es') =
     (if first_wait es \<noteq> None \<or> yielded es \<noteq> [] then first_wait es else first_wait es')"
  by (induction es rule: first_wait.induct) simp_all

lemma pacingWait_first:
  "t0 \<le> now \<Longrightarrow> pacingWait (lastYieldTime (initialState t0)) now = Some ms \<Longrightarrow> ms \<le> 2500"
  by (simp add: pacingWait_cases initialState_def slideDuration_def split: if_splits)

lemma pacing_inv_initialState: "pacing_inv t0 (initialState t0)"
  by (simp add: pacing_inv_def initialState_def)

lemma pacing_inv_catch_block:
  "pacing_inv t0 s \<Longrightarrow> pacing_inv t0 (snd (catch_block e s h))"
  by (simp add: catch_block_def Let_def pacing_inv_def first_wait_append)

lemma dispose_trace:
  "trace (dispose url s) =
     trace s @ (if length (previousURLs s) > 1 then [Revoked (hd (previousURLs s))] else [])"
  by (simp add: dispose_def Let_def)

lemma lastYieldTime_dispose [simp]: "lastYieldTime (dispose url s) = lastYieldTime s"
  by (simp add: dispose_def Let_def)

lemma pacing_inv_vend:
  assumes inv: "pacing_inv t0 s" and clock: "t0 \<le> nowBeforeWait W"
  shows "pacing_inv t0 (pace W url (dispose url (s\<lparr>consecutiveFailures := 0\<rparr>)))"
proof (cases "yielded (trace s) = []")
  case True
  with inv have last: "lastYieldTime s = lastYieldTime (initialState t0)"
    and none: "first_wait (trace s) = None"
    by (simp_all add: pacing_inv_def)
  show ?thesis
  proof (cases "pacingWait (lastYieldTime (initialState t0)) (nowBeforeWait W)")
    case None
    with True last none show ?thesis
      by (simp add: pacing_inv_def pace_trace dispose_trace first_wait_append)
  next
    case (Some ms)
    from pacingWait_first [OF clock Some] have "ms \<le> 2500" .
    with Some True last none show ?thesis
      by (simp add: pacing_inv_def pace_trace dispose_trace first_wait_append)
  qed
next
  case False
  with inv show ?thesis
    by (simp add: pacing_inv_def pace_trace dispose_trace first_wait_append)
qed

lemma pacing_inv_loop_body:
  "pacing_inv t0 s \<Longrightarrow> t0 \<le> nowBeforeWait (env it) \<Longrightarrow>
   pacing_inv t0 (snd (loop_body D cd s h it))"
  by (simp add: loop_body_def pacing_inv_vend pacing_inv_catch_block split: sum.splits)

lemma pacing_inv_for_files:
  "pacing_inv t0 s \<Longrightarrow> \<forall>it\<in>set files. t0 \<le> nowBeforeWait (env it) \<Longrightarrow>
   pacing_inv t0 (snd (for_files D cd s h files))"
proof (induction files arbitrary: s h)
  case Nil
  then show ?case by simp
next
  case (Cons it rest)
  from Cons.prems have "pacing_inv t0 (snd (loop_body D cd s h it))"
    by (simp add: pacing_inv_loop_body)
  with Cons.prems(2) show ?case
    by (cases "loop_body D cd s h it") (auto simp add: Cons.IH split: sum.splits)
qed

lemma pacing_inv_while_true:
  "pacing_inv t0 s \<Longrightarrow>
   \<forall>p\<in>set passes. \<forall>files. p = Inr files \<longrightarrow> (\<forall>it\<in>set files. t0 \<le> nowBeforeWait (env it)) \<Longrightarrow>
   pacing_inv t0 (snd (while_true D cd s passes))"
proof (induction passes arbitrary: s)
  case Nil
  then show ?case by simp
next
  case (Cons p passes)
  show ?case
  proof (cases p)
    case (Inl e)
    with Cons.prems show ?thesis by simp
  next
    case (Inr files)
    with Cons.prems have "pacing_inv t0 (snd (for_files D cd s False files))"
      by (simp add: pacing_inv_for_files)
    with Inr Cons.prems(2) show ?thesis
      by (cases "for_files D cd s False files") (auto simp add: Cons.IH split: sum.splits)
  qed
qed

lemma waited_append [simp]: "waited (es @ es') = waited es @ waited es'"
  by (induction es rule: waited.induct) simp_all

lemma for_files_append:
  "for_files D cd s h (xs @ ys) =
     (case for_files D cd s h xs of
        (Inl e, s') \<Rightarrow> (Inl e, s')
      | (Inr h', s') \<Rightarrow> for_files D cd s' h' ys)"
proof (induction xs arbitrary: s h)
  case Nil
  show ?case by simp
next
  case (Cons x xs)
  show ?case
    by (cases "loop_body D cd s h x") (auto simp add: Cons.IH split: sum.splits)
qed

lemma catch_block_quiet:
  "lastYieldTime (snd (catch_block e s h)) = lastYieldTime s
   \<and> waited (trace (snd (catch_block e s h))) = waited (trace s)
   \<and> yielded (trace (snd (catch_block e s h))) = yielded (trace s)"
  by (simp add: catch_block_def Let_def)

lemma loop_body_quiet:
  assumes "\<forall>url. materialization D cd it \<noteq> Some (Inr url)"
  shows "lastYieldTime (snd (loop_body D cd s h it)) = lastYieldTime s
   \<and> waited (trace (snd (loop_body D cd s h it))) = waited (trace s)
   \<and> yielded (trace (snd (loop_body D cd s h it))) = yielded (trace s)"
proof (cases "decryptEnteFile D (encryptedFile it) (collectionKey cd)")
  case (Inl e)
  then show ?thesis by (simp add: loop_body_def)
next
  case (Inr f)
  show ?thesis
  proof (cases "isFileEligible D f")
    case False
    with Inr show ?thesis by (simp add: loop_body_def)
  next
    case True
    with Inr assms obtain e where "createRenderableURL D (env it) (castToken cd) f = Inl e"
      by (cases "createRenderableURL D (env it) (castToken cd) f")
        (auto simp add: materialization_def)
    with Inr True have "loop_body D cd s h it = catch_block e s h"
      by (simp add: loop_body_def)
    then show ?thesis by (simp add: catch_block_quiet)
  qed
qed

lemma for_files_quiet:
  "\<forall>x\<in>set xs. \<forall>url. materialization D cd x \<noteq> Some (Inr url) \<Longrightarrow>
   lastYieldTime (snd (for_files D cd s h xs)) = lastYieldTime s
   \<and> waited (trace (snd (for_files D cd s h xs))) = waited (trace s)
   \<and> yielded (trace (snd (for_files D cd s h xs))) = yielded (trace s)"
proof (induction xs arbitrary: s h)
  case Nil
  show ?case by simp
next
  case (Cons x xs)
  from Cons.prems have x: "\<forall>url. materialization D cd x \<noteq> Some (Inr url)"
    and xs: "\<forall>x\<in>set xs. \<forall>url. materialization D cd x \<noteq> Some (Inr url)"
    by simp_all
  obtain r s1 where body: "loop_body D cd s h x = (r, s1)"
    by (cases "loop_body D cd s h x") auto
  from loop_body_quiet [OF x, of s h] body
  have s1: "lastYieldTime s1 = lastYieldTime s" "waited (trace s1) = waited (trace s)"
    "yielded (trace s1) = yielded (trace s)"
    by simp_all
  show ?case
  proof (cases r)
    case (Inl e)
    with body s1 show ?thesis by simp
  next
    case (Inr h1)
    with body Cons.IH [OF xs, of s1 h1] s1 show ?thesis by simp
  qed
qed

lemma loop_body_paced:
  assumes "materialization D cd it = Some (Inr url)"
  shows "trace (snd (loop_body D cd s h it))
           = trace s
             @ (if 1 < length (previousURLs s) then [Revoked (hd (previousURLs s))] else [])
             @ (case pacingWait (lastYieldTime s) (nowBeforeWait (env it)) of
                  Some ms \<Rightarrow> [Waited ms] | None \<Rightarrow> [])
             @ [Yielded url]
         \<and> lastYieldTime (snd (loop_body D cd s h it)) = nowAtYield (env it)
         \<and> waited (trace (snd (loop_body D cd s h it)))
             = waited (trace s)
               @ (case pacingWait (lastYieldTime s) (nowBeforeWait (env it)) of
                    Some ms \<Rightarrow> [ms] | None \<Rightarrow> [])"
proof -
  have last: "lastYieldTime (pace W u t) = nowAtYield W" for W u t
    by (simp add: pace_def Let_def split: option.splits)
  show ?thesis
    by (simp add: loop_body_materialized [OF assms] pace_trace dispose_trace last
        split: option.splits)
qed

lemma for_files_True:
  "for_files D cd s True xs = (Inr h, s') \<Longrightarrow> h"
  using for_files_trace [of D cd s True xs "Inr h" s'] by simp

lemma resume_two_yields:
  assumes a: "materialization D cd a = Some (Inr u1)"
    and b: "materialization D cd b = Some (Inr u2)"
    and xs: "\<forall>x\<in>set xs. \<forall>url. materialization D cd x \<noteq> Some (Inr url)"
    and run: "for_files D cd (snd (loop_body D cd s h a)) True xs = (Inr hx, sx)"
  shows "resume D cd s h (a # xs @ b # rest) passes
           = resume D cd (snd (loop_body D cd sx hx b)) True rest passes
         \<and> lastYieldTime sx = nowAtYield (env a)
         \<and> waited (trace (snd (loop_body D cd sx hx b)))
             = waited (trace s)
               @ (case pacingWait (lastYieldTime s) (nowBeforeWait (env a)) of
                    Some ms \<Rightarrow> [ms] | None \<Rightarrow> [])
               @ (case pacingWait (nowAtYield (env a)) (nowBeforeWait (env b)) of
                    Some ms \<Rightarrow> [ms] | None \<Rightarrow> [])"
proof -
  define s1 where "s1 = snd (loop_body D cd s h a)"
  define s2 where "s2 = snd (loop_body D cd sx hx b)"
  have body_a: "loop_body D cd s h a = (Inr True, s1)"
    unfolding s1_def by (simp add: loop_body_materialized [OF a])
  have body_b: "loop_body D cd sx hx b = (Inr True, s2)"
    unfolding s2_def by (simp add: loop_body_materialized [OF b])
  from run have run': "for_files D cd s1 True xs = (Inr hx, sx)"
    by (simp add: s1_def)
  from for_files_quiet [OF xs, of s1 True] run'
  have sx: "lastYieldTime sx = lastYieldTime s1" "waited (trace sx) = waited (trace s1)"
    by simp_all
  from loop_body_paced [OF a, of s h, THEN conjunct2]
  have s1: "lastYieldTime s1 = nowAtYield (env a)"
    "waited (trace s1) = waited (trace s)
       @ (case pacingWait (lastYieldTime s) (nowBeforeWait (env a)) of
            Some ms \<Rightarrow> [ms] | None \<Rightarrow> [])"
    by (simp_all add: s1_def)
  have "for_files D cd s h (a # xs @ b # rest) = for_files D cd s2 True rest"
    by (simp add: body_a for_files_append run' body_b)
  then have go: "resume D cd s h (a # xs @ b # rest) passes = resume D cd s2 True rest passes"
    by (simp only: resume_def)
  from loop_body_paced [OF b, of sx hx, THEN conjunct2, THEN conjunct2] sx s1
  have "waited (trace s2)
             = waited (trace s)
               @ (case pacingWait (lastYieldTime s) (nowBeforeWait (env a)) of
                    Some ms \<Rightarrow> [ms] | None \<Rightarrow> [])
               @ (case pacingWait (nowAtYield (env a)) (nowBeforeWait (env b)) of
                    Some ms \<Rightarrow> [ms] | None \<Rightarrow> [])"
    by (simp add: s2_def)
  with go sx s1 show ?thesis
    by (simp add: s2_def)
qed


lemma resume_two_yields_across:
  assumes a: "materialization D cd a = Some (Inr u1)"
    and b: "materialization D cd b = Some (Inr u2)"
    and xs: "\<forall>x\<in>set xs. \<forall>url. materialization D cd x \<noteq> Some (Inr url)"
    and ys: "\<forall>x\<in>set ys. \<forall>url. materialization D cd x \<noteq> Some (Inr url)"
    and run: "for_files D cd (snd (loop_body D cd s h a)) True xs = (Inr hx, sx)"
    and run2: "for_files D cd sx False ys = (Inr hy, sy)"
  shows "resume D cd s h (a # xs) (Inr (ys @ b # rest) # passes)
           = resume D cd (snd (loop_body D cd sy hy b)) True rest passes
         \<and> lastYieldTime sy = nowAtYield (env a)
         \<and> waited (trace (snd (loop_body D cd sy hy b)))
             = waited (trace s)
               @ (case pacingWait (lastYieldTime s) (nowBeforeWait (env a)) of
                    Some ms \<Rightarrow> [ms] | None \<Rightarrow> [])
               @ (case pacingWait (nowAtYield (env a)) (nowBeforeWait (env b)) of
                    Some ms \<Rightarrow> [ms] | None \<Rightarrow> [])"
proof -
  define s1 where "s1 = snd (loop_body D cd s h a)"
  define s2 where "s2 = snd (loop_body D cd sy hy b)"
  have body_a: "loop_body D cd s h a = (Inr True, s1)"
    unfolding s1_def by (simp add: loop_body_materialized [OF a])
  have body_b: "loop_body D cd sy hy b = (Inr True, s2)"
    unfolding s2_def by (simp add: loop_body_materialized [OF b])
  from run have run': "for_files D cd s1 True xs = (Inr hx, sx)"
    by (simp add: s1_def)
  from for_files_True [OF run'] have hx: "hx" .
  from for_files_quiet [OF xs, of s1 True] run'
  have sx: "lastYieldTime sx = lastYieldTime s1" "waited (trace sx) = waited (trace s1)"
    by simp_all
  from for_files_quiet [OF ys, of sx False] run2
  have sy: "lastYieldTime sy = lastYieldTime sx" "waited (trace sy) = waited (trace sx)"
    by simp_all
  from loop_body_paced [OF a, of s h, THEN conjunct2]
  have s1: "lastYieldTime s1 = nowAtYield (env a)"
    "waited (trace s1) = waited (trace s)
       @ (case pacingWait (lastYieldTime s) (nowBeforeWait (env a)) of
            Some ms \<Rightarrow> [ms] | None \<Rightarrow> [])"
    by (simp_all add: s1_def)
  have pass1: "for_files D cd s h (a # xs) = (Inr True, sx)"
    using hx by (simp add: body_a run')
  have pass2: "for_files D cd sx False (ys @ b # rest) = for_files D cd s2 True rest"
    by (simp add: for_files_append run2 body_b)
  have "resume D cd s h (a # xs) (Inr (ys @ b # rest) # passes)
          = resume D cd sx False (ys @ b # rest) passes"
    by (simp only: resume_def pass1 while_true_resume [symmetric]) simp
  also have "\<dots> = resume D cd s2 True rest passes"
    by (simp only: resume_def pass2)
  finally have go: "resume D cd s h (a # xs) (Inr (ys @ b # rest) # passes)
          = resume D cd s2 True rest passes" .
  from loop_body_paced [OF b, of sy hy, THEN conjunct2, THEN conjunct2] sx sy s1
  have "waited (trace s2)
             = waited (trace s)
               @ (case pacingWait (lastYieldTime s) (nowBeforeWait (env a)) of
                    Some ms \<Rightarrow> [ms] | None \<Rightarrow> [])
               @ (case pacingWait (nowAtYield (env a)) (nowBeforeWait (env b)) of
                    Some ms \<Rightarrow> [ms] | None \<Rightarrow> [])"
    by (simp add: s2_def)
  with go sx sy s1 show ?thesis
    by (simp add: s2_def)
qed

text \<open>
  C9, as the code has it. With \<open>elapsed\<close> the time since the last yield: when
  \<open>0 < elapsed < 12000\<close> the generator waits exactly \<open>12000 - elapsed\<close> milliseconds
  before it yields, and otherwise, also when the clock has not moved on since the last
  yield, it does not wait at all; a wait is never negative. This is so of every file
  the loop materializes, in whatever state: its step appends the wait the rule gives
  for the time of the last yield, then the yield, and sets the time of the last yield
  to the reading of the clock at the yield. Files that are not materialized add no wait
  and no yield and leave the time of the last yield alone. So for two files that are
  materialized one after the other, whatever lies between them and whether or not a
  pass ends between them, the wait before the second is the one the rule gives for the
  clock reading at the yield of the first. When no reading of the clock is earlier than
  the one at the start, the wait before the first yield of a run is at most 2500 ms.
\<close>

theorem pacing_wait:
  "(0 < now - lastYield \<and> now - lastYield < 12000 \<longrightarrow>
      pacingWait lastYield now = Some (12000 - (now - lastYield)))
   \<and> (now - lastYield \<le> 0 \<or> 12000 \<le> now - lastYield \<longrightarrow> pacingWait lastYield now = None)
   \<and> (\<forall>ms. pacingWait lastYield now = Some ms \<longrightarrow> 0 < ms \<and> ms < 12000)
   \<and> trace (pace W url s)
       = trace s @ (case pacingWait (lastYieldTime s) (nowBeforeWait W) of
                      Some ms \<Rightarrow> [Waited ms] | None \<Rightarrow> []) @ [Yielded url]
   \<and> lastYieldTime (pace W url s) = nowAtYield W
   \<and> ((\<forall>p\<in>set passes. \<forall>files. p = Inr files \<longrightarrow>
          (\<forall>it\<in>set files. t0 \<le> nowBeforeWait (env it)))
        \<longrightarrow> (\<forall>ms. first_wait (trace (snd (imageURLGenerator D cd t0 passes))) = Some ms
               \<longrightarrow> ms \<le> 2500))
   \<and> (materialization D cd it = Some (Inr url) \<longrightarrow>
        trace (snd (loop_body D cd s h it))
          = trace s
            @ (if 1 < length (previousURLs s) then [Revoked (hd (previousURLs s))] else [])
            @ (case pacingWait (lastYieldTime s) (nowBeforeWait (env it)) of
                 Some ms \<Rightarrow> [Waited ms] | None \<Rightarrow> [])
            @ [Yielded url]
        \<and> lastYieldTime (snd (loop_body D cd s h it)) = nowAtYield (env it))
   \<and> ((\<forall>x\<in>set xs. \<forall>url. materialization D cd x \<noteq> Some (Inr url)) \<longrightarrow>
        lastYieldTime (snd (for_files D cd s h xs)) = lastYieldTime s
        \<and> waited (trace (snd (for_files D cd s h xs))) = waited (trace s)
        \<and> yielded (trace (snd (for_files D cd s h xs))) = yielded (trace s))
   \<and> (materialization D cd a = Some (Inr u1) \<and> materialization D cd b = Some (Inr u2)
        \<and> (\<forall>x\<in>set xs. \<forall>url. materialization D cd x \<noteq> Some (Inr url))
        \<and> for_files D cd (snd (loop_body D cd s h a)) True xs = (Inr hx, sx) \<longrightarrow>
        resume D cd s h (a # xs @ b # rest) passes
          = resume D cd (snd (loop_body D cd sx hx b)) True rest passes
        \<and> lastYieldTime sx = nowAtYield (env a)
        \<and> waited (trace (snd (loop_body D cd sx hx b)))
            = waited (trace s)
              @ (case pacingWait (lastYieldTime s) (nowBeforeWait (env a)) of
                   Some ms \<Rightarrow> [ms] | None \<Rightarrow> [])
              @ (case pacingWait (nowAtYield (env a)) (nowBeforeWait (env b)) of
                   Some ms \<Rightarrow> [ms] | None \<Rightarrow> []))
   \<and> (materialization D cd a = Some (Inr u1) \<and> materialization D cd b = Some (Inr u2)
        \<and> (\<forall>x\<in>set xs. \<forall>url. materialization D cd x \<noteq> Some (Inr url))
        \<and> (\<forall>x\<in>set ys. \<forall>url. materialization D cd x \<noteq> Some (Inr url))
        \<and> for_files D cd (snd (loop_body D cd s h a)) True xs = (Inr hx, sx)
        \<and> for_files D cd sx False ys = (Inr hy, sy) \<longrightarrow>
        resume D cd s h (a # xs) (Inr (ys @ b # rest) # passes)
          = resume D cd (snd (loop_body D cd sy hy b)) True rest passes
        \<and> lastYieldTime sy = nowAtYield (env a)
        \<and> waited (trace (snd (loop_body D cd sy hy b)))
            = waited (trace s)
              @ (case pacingWait (lastYieldTime s) (nowBeforeWait (env a)) of
                   Some ms \<Rightarrow> [ms] | None \<Rightarrow> [])
              @ (case pacingWait (nowAtYield (env a)) (nowBeforeWait (env b)) of
                   Some ms \<Rightarrow> [ms] | None \<Rightarrow> []))"
proof -
  have "pacing_inv t0 (snd (imageURLGenerator D cd t0 passes))"
    if "\<forall>p\<in>set passes. \<forall>files. p = Inr files \<longrightarrow>
          (\<forall>it\<in>set files. t0 \<le> nowBeforeWait (env it))"
    unfolding imageURLGenerator_def
    by (rule pacing_inv_while_true [OF pacing_inv_initialState that])
  then have first: "(\<forall>p\<in>set passes. \<forall>files. p = Inr files \<longrightarrow>
          (\<forall>it\<in>set files. t0 \<le> nowBeforeWait (env it)))
        \<longrightarrow> (\<forall>ms. first_wait (trace (snd (imageURLGenerator D cd t0 passes))) = Some ms
               \<longrightarrow> ms \<le> 2500)"
    by (simp add: pacing_inv_def)
  have last: "lastYieldTime (pace W url s) = nowAtYield W"
    by (simp add: pace_def Let_def split: option.splits)
  from first last have old: "(0 < now - lastYield \<and> now - lastYield < 12000 \<longrightarrow>
      pacingWait lastYield now = Some (12000 - (now - lastYield)))
   \<and> (now - lastYield \<le> 0 \<or> 12000 \<le> now - lastYield \<longrightarrow> pacingWait lastYield now = None)
   \<and> (\<forall>ms. pacingWait lastYield now = Some ms \<longrightarrow> 0 < ms \<and> ms < 12000)
   \<and> trace (pace W url s)
       = trace s @ (case pacingWait (lastYieldTime s) (nowBeforeWait W) of
                      Some ms \<Rightarrow> [Waited ms] | None \<Rightarrow> []) @ [Yielded url]
   \<and> lastYieldTime (pace W url s) = nowAtYield W
   \<and> ((\<forall>p\<in>set passes. \<forall>files. p = Inr files \<longrightarrow>
          (\<forall>it\<in>set files. t0 \<le> nowBeforeWait (env it)))
        \<longrightarrow> (\<forall>ms. first_wait (trace (snd (imageURLGenerator D cd t0 passes))) = Some ms
               \<longrightarrow> ms \<le> 2500))"
    by (simp add: pacingWait_cases pace_trace)
  have step: "materialization D cd it = Some (Inr url) \<longrightarrow>
        trace (snd (loop_body D cd s h it))
          = trace s
            @ (if 1 < length (previousURLs s) then [Revoked (hd (previousURLs s))] else [])
            @ (case pacingWait (lastYieldTime s) (nowBeforeWait (env it)) of
                 Some ms \<Rightarrow> [Waited ms] | None \<Rightarrow> [])
            @ [Yielded url]
        \<and> lastYieldTime (snd (loop_body D cd s h it)) = nowAtYield (env it)"
    using loop_body_paced [of D cd it url s h] by blast
  have quiet: "(\<forall>x\<in>set xs. \<forall>url. materialization D cd x \<noteq> Some (Inr url)) \<longrightarrow>
        lastYieldTime (snd (for_files D cd s h xs)) = lastYieldTime s
        \<and> waited (trace (snd (for_files D cd s h xs))) = waited (trace s)
        \<and> yielded (trace (snd (for_files D cd s h xs))) = yielded (trace s)"
    using for_files_quiet [of xs D cd s h] by blast
  note two = resume_two_yields [of D cd a u1 b u2 xs s h hx sx rest passes]
  note across = resume_two_yields_across [of D cd a u1 b u2 xs ys s h hx sx hy sy rest passes]
  show ?thesis
    apply (intro conjI impI)
    using old apply blast
    using old apply blast
    using old apply blast
    using old apply blast
    using old apply blast
    using old apply blast
    using step apply blast
    using step apply blast
    using quiet apply blast
    using quiet apply blast
    using quiet apply blast
    using two apply blast
    using two apply blast
    using two apply blast
    using across apply blast
    using across apply blast
    using across apply blast
    done
qed

lemma materialization_filteredOut:
  "filteredOut D cd it \<Longrightarrow> materialization D cd it = None"
  by (cases "decryptEnteFile D (encryptedFile it) (collectionKey cd)")
    (simp_all add: filteredOut_def materialization_def)

theorem pacing_wait_witness:
  "pacingWait 0 5000 = Some 7000 \<and> pacingWait 0 20000 = None \<and> pacingWait 1000 1000 = None
   \<and> first_wait (trace (snd (imageURLGenerator ex_deps ex_cast 0
        [Inr [ex_photo (Inr (Some [2, 3])) ''blob:1'' 1000 1000]]))) = Some 1500
   \<and> (1500 :: int) \<le> 2500
   \<and> trace (snd (imageURLGenerator ex_deps ex_cast 0
        [Inr [ex_photo (Inr (Some [2, 3])) ''blob:1'' 1000 1000,
              ex_photo (Inl (Error ''network'')) ''blob:x'' 1200 1200,
              ex_video,
              ex_photo (Inr (Some [2, 3])) ''blob:2'' 1500 1600]]))
       = [Waited 1500, Yielded ''blob:1'', Logged (Error ''network''),
          Waited 11500, Yielded ''blob:2'']
   \<and> waited (trace (snd (resume ex_deps ex_cast (initialState 0) False
        [ex_photo (Inr (Some [2, 3])) ''blob:1'' 1000 1000,
         ex_photo (Inl (Error ''network'')) ''blob:x'' 1200 1200,
         ex_video,
         ex_photo (Inr (Some [2, 3])) ''blob:2'' 1500 1600] []))) = [1500, 11500]
   \<and> waited (trace (snd (resume ex_deps ex_cast (initialState 0) False
        [ex_photo (Inr (Some [2, 3])) ''blob:1'' 1000 1000,
         ex_photo (Inl (Error ''network'')) ''blob:x'' 1200 1200]
        [Inr [ex_video, ex_photo (Inr (Some [2, 3])) ''blob:2'' 1500 1600]]))) = [1500, 11500]"
proof -
  let ?p1 = "ex_photo (Inr (Some [2, 3])) ''blob:1'' 1000 1000"
  let ?f = "ex_photo (Inl (Error ''network'')) ''blob:x'' 1200 1200"
  let ?p2 = "ex_photo (Inr (Some [2, 3])) ''blob:2'' 1500 1600"
  let ?s1 = "snd (loop_body ex_deps ex_cast (initialState 0) False ?p1)"
  let ?sx = "snd (for_files ex_deps ex_cast ?s1 True [?f, ex_video])"
  let ?sf = "snd (for_files ex_deps ex_cast ?s1 True [?f])"
  let ?sy = "snd (for_files ex_deps ex_cast ?sf False [ex_video])"
  have w: "first_wait (trace (snd (imageURLGenerator ex_deps ex_cast 0 [Inr [?p1]]))) = Some 1500"
    by (simp add: ex_run)
  have clock: "\<forall>p\<in>set [Inr [?p1] :: exn + item list]. \<forall>files. p = Inr files \<longrightarrow>
          (\<forall>it\<in>set files. 0 \<le> nowBeforeWait (env it))"
    by (simp add: ex_photo_env ex_world_clock)
  from pacing_wait [where lastYield = 0 and now = 5000, THEN conjunct1]
  have a: "pacingWait 0 5000 = Some 7000" by simp
  from pacing_wait [where lastYield = 0 and now = 20000, THEN conjunct2, THEN conjunct1]
  have b: "pacingWait 0 20000 = None" by simp
  from pacing_wait [where lastYield = 1000 and now = 1000, THEN conjunct2, THEN conjunct1]
  have c: "pacingWait 1000 1000 = None" by simp
  from pacing_wait [where D = ex_deps and cd = ex_cast and ?t0.0 = 0
      and passes = "[Inr [?p1]]",
      THEN conjunct2, THEN conjunct2, THEN conjunct2, THEN conjunct2, THEN conjunct2,
      THEN conjunct1, THEN mp, OF clock, THEN spec, THEN mp, OF w]
  have d: "(1500 :: int) \<le> 2500" .
  have tr: "trace (snd (imageURLGenerator ex_deps ex_cast 0 [Inr [?p1, ?f, ex_video, ?p2]]))
       = [Waited 1500, Yielded ''blob:1'', Logged (Error ''network''),
          Waited 11500, Yielded ''blob:2'']"
    by (simp add: ex_run)
  have quiet2: "\<forall>x\<in>set [?f, ex_video]. \<forall>url. materialization ex_deps ex_cast x \<noteq> Some (Inr url)"
    by (simp add: ex_photo_fail materialization_filteredOut [OF ex_video_filteredOut])
  have quiet_f: "\<forall>x\<in>set [?f]. \<forall>url. materialization ex_deps ex_cast x \<noteq> Some (Inr url)"
    using quiet2 by simp
  have quiet_v: "\<forall>x\<in>set [ex_video]. \<forall>url. materialization ex_deps ex_cast x \<noteq> Some (Inr url)"
    using quiet2 by simp
  have run: "for_files ex_deps ex_cast ?s1 True [?f, ex_video] = (Inr True, ?sx)"
    by (simp add: ex_run)
  have runf: "for_files ex_deps ex_cast ?s1 True [?f] = (Inr True, ?sf)"
    by (simp add: ex_run)
  have runv: "for_files ex_deps ex_cast ?sf False [ex_video] = (Inr False, ?sy)"
    by (simp add: ex_run)
  have hyp2: "materialization ex_deps ex_cast ?p1 = Some (Inr ''blob:1'')
        \<and> materialization ex_deps ex_cast ?p2 = Some (Inr ''blob:2'')
        \<and> (\<forall>x\<in>set [?f, ex_video]. \<forall>url. materialization ex_deps ex_cast x \<noteq> Some (Inr url))
        \<and> for_files ex_deps ex_cast ?s1 True [?f, ex_video] = (Inr True, ?sx)"
    by (intro conjI ex_photo_ok quiet2 run)
  have hyp3: "materialization ex_deps ex_cast ?p1 = Some (Inr ''blob:1'')
        \<and> materialization ex_deps ex_cast ?p2 = Some (Inr ''blob:2'')
        \<and> (\<forall>x\<in>set [?f]. \<forall>url. materialization ex_deps ex_cast x \<noteq> Some (Inr url))
        \<and> (\<forall>x\<in>set [ex_video]. \<forall>url. materialization ex_deps ex_cast x \<noteq> Some (Inr url))
        \<and> for_files ex_deps ex_cast ?s1 True [?f] = (Inr True, ?sf)
        \<and> for_files ex_deps ex_cast ?sf False [ex_video] = (Inr False, ?sy)"
    by (intro conjI ex_photo_ok quiet_f quiet_v runf runv)
  note two = pacing_wait [where D = ex_deps and cd = ex_cast and s = "initialState 0"
      and h = False and a = ?p1 and ?u1.0 = "''blob:1''" and b = ?p2 and ?u2.0 = "''blob:2''"
      and xs = "[?f, ex_video]" and hx = True and sx = ?sx and rest = "[]" and passes = "[]",
      THEN conjunct2, THEN conjunct2, THEN conjunct2, THEN conjunct2, THEN conjunct2,
      THEN conjunct2, THEN conjunct2, THEN conjunct2, THEN conjunct1, THEN mp, OF hyp2]
  note across = pacing_wait [where D = ex_deps and cd = ex_cast and s = "initialState 0"
      and h = False and a = ?p1 and ?u1.0 = "''blob:1''" and b = ?p2 and ?u2.0 = "''blob:2''"
      and xs = "[?f]" and ys = "[ex_video]" and hx = True and sx = ?sf and hy = False
      and sy = ?sy and rest = "[]" and passes = "[]",
      THEN conjunct2, THEN conjunct2, THEN conjunct2, THEN conjunct2, THEN conjunct2,
      THEN conjunct2, THEN conjunct2, THEN conjunct2, THEN conjunct2, THEN mp, OF hyp3]
  have e: "waited (trace (snd (resume ex_deps ex_cast (initialState 0) False
             [?p1, ?f, ex_video, ?p2] []))) = [1500, 11500]"
  proof -
    from two have "resume ex_deps ex_cast (initialState 0) False ([?p1] @ [?f, ex_video] @ ?p2 # []) []
        = resume ex_deps ex_cast (snd (loop_body ex_deps ex_cast ?sx True ?p2)) True [] []"
      by simp
    moreover from two have "waited (trace (snd (loop_body ex_deps ex_cast ?sx True ?p2)))
        = [1500, 11500]"
      by (simp add: initialState_def ex_photo_env ex_world_clock pacingWait_cases
          slideDuration_def)
    ultimately show ?thesis by (simp add: resume_Nil)
  qed
  have g: "waited (trace (snd (resume ex_deps ex_cast (initialState 0) False
             [?p1, ?f] [Inr [ex_video, ?p2]]))) = [1500, 11500]"
  proof -
    from across have "resume ex_deps ex_cast (initialState 0) False ([?p1] @ [?f])
          (Inr ([ex_video] @ ?p2 # []) # [])
        = resume ex_deps ex_cast (snd (loop_body ex_deps ex_cast ?sy False ?p2)) True [] []"
      by simp
    moreover from across have "waited (trace (snd (loop_body ex_deps ex_cast ?sy False ?p2)))
        = [1500, 11500]"
      by (simp add: initialState_def ex_photo_env ex_world_clock pacingWait_cases
          slideDuration_def)
    ultimately show ?thesis by (simp add: resume_Nil)
  qed
  from a b c d w tr e g show ?thesis by simp
qed

text \<open>
  C9 as stated fails when the clock reads at the yield what it read at the last one:
  the remainder of the slide duration is the full 12000 ms, and the guard
  \<open>elapsedTime > 0\<close> makes the generator skip the wait. And when the clock has gone
  back by 5 s between the start (10000) and the first yield (5000), the first wait is
  7500 ms.
\<close>

theorem pacing_wait_counterexample:
  "pacingWait 1000 1000 = None \<and> max 0 (slideDuration - (1000 - 1000)) = 12000
   \<and> pacingWait (lastYieldTime (initialState 10000)) 5000 = Some 7500"
  by (simp add: pacingWait_cases slideDuration_def initialState_def)

end
